theory Spec2Isabelle
  imports Main
begin

section \<open>The SMTP session handler of pkg/server/smtp/handler.go\<close>

text \<open>
  A shallow embedding of the per-connection SMTP state machine. Strings are byte lists,
  as Go's \<^verbatim>\<open>string\<close> and \<^verbatim>\<open>[]byte\<close> are. The fields of Go's \<^verbatim>\<open>Session\<close>, the
  connection it reads and writes, and the process-wide state it touches (the expvar
  counters, the delivery manager, the clock) are threaded through every function as one
  record; the read-only \<^verbatim>\<open>Server\<close> is a separate parameter.
\<close>

subsection \<open>Bytes and the string library\<close>

definition CR :: char where "CR = CHR 0x0D"
definition LF :: char where "LF = CHR 0x0A"
definition CRLF :: string where "CRLF = [CR, LF]"

definition lowerLetters :: string where
  "lowerLetters = ''abcdefghijklmnopqrstuvwxyz''"

definition upperLetters :: string where
  "upperLetters = ''ABCDEFGHIJKLMNOPQRSTUVWXYZ''"

definition digitChars :: string where
  "digitChars = ''0123456789''"

text \<open>
  UTF-8 as the library reads and writes it. Runes are natural numbers.
  \<^verbatim>\<open>utf8.DecodeRuneInString\<close> gives the first rune of a string and its width in bytes;
  a byte that starts no well-formed sequence is \<open>RuneError\<close> with width 1, which is also
  what \<^verbatim>\<open>range\<close> over a string yields for it. \<open>seqLen\<close>, \<open>acceptLo\<close> and \<open>acceptHi\<close>
  are the tables \<^verbatim>\<open>first\<close> and \<^verbatim>\<open>acceptRanges\<close>: the length a first byte announces
  (0 for a byte that cannot start a sequence) and the range allowed for the second byte.
\<close>

definition RuneError :: nat where "RuneError = 0xFFFD"

definition seqLen :: "nat \<Rightarrow> nat" where
  "seqLen x =
     (if 0xC2 \<le> x \<and> x \<le> 0xDF then 2
      else if 0xE0 \<le> x \<and> x \<le> 0xEF then 3
      else if 0xF0 \<le> x \<and> x \<le> 0xF4 then 4
      else 0)"

definition acceptLo :: "nat \<Rightarrow> nat" where
  "acceptLo x = (if x = 0xE0 then 0xA0 else if x = 0xF0 then 0x90 else 0x80)"

definition acceptHi :: "nat \<Rightarrow> nat" where
  "acceptHi x = (if x = 0xED then 0x9F else if x = 0xF4 then 0x8F else 0xBF)"

definition inRange :: "nat \<Rightarrow> nat \<Rightarrow> char \<Rightarrow> bool" where
  "inRange lo hi c = (lo \<le> (of_char c :: nat) \<and> (of_char c :: nat) \<le> hi)"

definition DecodeRuneInString :: "string \<Rightarrow> nat \<times> nat" where
  "DecodeRuneInString s =
     (case s of
        [] \<Rightarrow> (RuneError, 0)
      | s0 # t \<Rightarrow>
          let x = (of_char s0 :: nat); sz = seqLen x in
          if x < 0x80 then (x, 1)
          else if sz = 0 then (RuneError, 1)
          else if length s < sz then (RuneError, 1)
          else if \<not> inRange (acceptLo x) (acceptHi x) (s ! 1) then (RuneError, 1)
          else if sz \<le> 2 then ((x mod 32) * 64 + of_char (s ! 1) mod 64, 2)
          else if \<not> inRange 0x80 0xBF (s ! 2) then (RuneError, 1)
          else if sz \<le> 3
          then ((x mod 16) * 4096 + (of_char (s ! 1) mod 64) * 64 + of_char (s ! 2) mod 64, 3)
          else if \<not> inRange 0x80 0xBF (s ! 3) then (RuneError, 1)
          else ((x mod 8) * 262144 + (of_char (s ! 1) mod 64) * 4096 +
                (of_char (s ! 2) mod 64) * 64 + of_char (s ! 3) mod 64, 4))"

text \<open>
  Writing a rune (\<^verbatim>\<open>utf8.AppendRune\<close>): one to four bytes; a surrogate or a value beyond
  U+10FFFF is written as \<open>RuneError\<close>.
\<close>

definition encode3 :: "nat \<Rightarrow> string" where
  "encode3 r =
     [char_of (0xE0 + r div 4096), char_of (0x80 + (r div 64) mod 64), char_of (0x80 + r mod 64)]"

definition EncodeRune :: "nat \<Rightarrow> string" where
  "EncodeRune r =
     (if r \<le> 0x7F then [char_of r]
      else if r \<le> 0x7FF then [char_of (0xC0 + r div 64), char_of (0x80 + r mod 64)]
      else if r > 0x10FFFF \<or> (0xD800 \<le> r \<and> r \<le> 0xDFFF) then encode3 RuneError
      else if r \<le> 0xFFFF then encode3 r
      else [char_of (0xF0 + r div 262144), char_of (0x80 + (r div 4096) mod 64),
            char_of (0x80 + (r div 64) mod 64), char_of (0x80 + r mod 64)])"

lemma DecodeRune_width: "s \<noteq> [] \<Longrightarrow> 1 \<le> snd (DecodeRuneInString s)"
  by (cases s) (simp_all add: DecodeRuneInString_def Let_def)

text \<open>
  \<^verbatim>\<open>strings.Map(mapping, s)\<close> for a mapping that drops no rune: the string is read rune
  by rune and the image of each rune is written. (The library copies a stretch of
  unchanged runes as it stands; a rune that was decoded from well-formed bytes is written
  back as the same bytes, and an ill-formed byte is never copied.)
\<close>

function MapRunes :: "(nat \<Rightarrow> nat) \<Rightarrow> string \<Rightarrow> string" where
  "MapRunes mapping [] = []"
| "MapRunes mapping (c # cs) =
     EncodeRune (mapping (fst (DecodeRuneInString (c # cs)))) @
     MapRunes mapping (drop (snd (DecodeRuneInString (c # cs))) (c # cs))"
  by pat_completeness auto
termination
proof (relation "measure (\<lambda>(mapping, s). length s)")
  show "wf (measure (\<lambda>(mapping, s). length s))"
    by simp
next
  fix mapping :: "nat \<Rightarrow> nat" and c :: char and cs :: string
  have "1 \<le> snd (DecodeRuneInString (c # cs))"
    by (rule DecodeRune_width) simp
  then show "((mapping, drop (snd (DecodeRuneInString (c # cs))) (c # cs)), (mapping, c # cs))
      \<in> measure (\<lambda>(mapping, s). length s)"
    by simp
qed

text \<open>
  \<^verbatim>\<open>unicode.ToUpper\<close>: the letters \<^verbatim>\<open>a..z\<close> lose 0x20, every other ASCII rune stays,
  and a rune beyond ASCII is looked up in the case table of the library, which is the
  parameter \<open>tbl\<close>.
\<close>

definition unicode_ToUpper :: "(nat \<Rightarrow> nat) \<Rightarrow> nat \<Rightarrow> nat" where
  "unicode_ToUpper tbl r =
     (if r \<le> 0x7F then (if 0x61 \<le> r \<and> r \<le> 0x7A then r - 0x20 else r) else tbl r)"

text \<open>The same on one ASCII byte.\<close>

definition upperByte :: "char \<Rightarrow> char" where
  "upperByte c = (case map_of (zip lowerLetters upperLetters) c of Some u \<Rightarrow> u | None \<Rightarrow> c)"

text \<open>
  \<^verbatim>\<open>strings.ToUpper\<close>: a string of ASCII bytes is mapped byte by byte; any other string
  goes through \<^verbatim>\<open>Map(unicode.ToUpper, s)\<close>, so that its length in bytes may change.
\<close>

definition ToUpper :: "(nat \<Rightarrow> nat) \<Rightarrow> string \<Rightarrow> string" where
  "ToUpper tbl s =
     (if list_all (\<lambda>c. (of_char c :: nat) < 0x80) s then map upperByte s
      else MapRunes (unicode_ToUpper tbl) s)"

text \<open>\<^verbatim>\<open>strings.TrimRight(s, cutset)\<close>, \<^verbatim>\<open>strings.TrimLeft\<close> and \<^verbatim>\<open>strings.Trim\<close> for an ASCII cutset.\<close>

definition TrimLeft :: "string \<Rightarrow> string \<Rightarrow> string" where
  "TrimLeft s cutset = dropWhile (\<lambda>c. c \<in> set cutset) s"

definition TrimRight :: "string \<Rightarrow> string \<Rightarrow> string" where
  "TrimRight s cutset = rev (dropWhile (\<lambda>c. c \<in> set cutset) (rev s))"

definition Trim :: "string \<Rightarrow> string \<Rightarrow> string" where
  "Trim s cutset = TrimRight (TrimLeft s cutset) cutset"

text \<open>\<^verbatim>\<open>%v\<close> of an \<^verbatim>\<open>int\<close>: its decimal digits, with a minus sign when negative.\<close>

fun natDigits :: "nat \<Rightarrow> string" where
  "natDigits n = (if n < 10 then [digitChars ! n] else natDigits (n div 10) @ [digitChars ! (n mod 10)])"

declare natDigits.simps [simp del]

definition itoa :: "int \<Rightarrow> string" where
  "itoa i = (if i < 0 then CHR ''-'' # natDigits (nat (- i)) else natDigits (nat i))"

subsection \<open>Data model\<close>

text \<open>\<^verbatim>\<open>type State int\<close> with its five constants.\<close>

datatype State = GREET | READY | MAIL | DATA | QUIT

text \<open>The table \<^verbatim>\<open>commands\<close>: the verbs the server recognises.\<close>

definition commands :: "string \<Rightarrow> bool" where
  "commands cmd = (cmd \<in> set [''HELO'', ''EHLO'', ''MAIL'', ''RCPT'', ''DATA'', ''RSET'',
     ''SEND'', ''SOML'', ''SAML'', ''VRFY'', ''EXPN'', ''HELP'', ''NOOP'', ''QUIT'', ''TURN''])"

text \<open>
  \<^verbatim>\<open>policy.Recipient\<close>, declared outside this file: the handler reads
  \<^verbatim>\<open>Address.Address\<close> and \<^verbatim>\<open>LocalPart\<close> and calls \<^verbatim>\<open>ShouldStore()\<close>, whose answer for
  a given recipient is taken as a field.
\<close>

record Recipient =
  Address :: string
  LocalPart :: string
  ShouldStore :: bool

text \<open>
  The errors a read or a write of the connection can report, as far as the handler tells
  them apart: \<^verbatim>\<open>io.EOF\<close>, a \<^verbatim>\<open>net.Error\<close> whose \<^verbatim>\<open>Timeout()\<close> is true, anything else.
\<close>

datatype io_error = EOF | Timeout | OtherError

text \<open>
  What one call of \<^verbatim>\<open>send\<close> meets on the connection: both steps succeed, setting the
  write deadline fails, or the write itself fails.
\<close>

datatype write_result = WriteOk | DeadlineFailed io_error | WriteFailed io_error

text \<open>One call of \<^verbatim>\<open>manager.Deliver(to, from, recipients, prefix, content)\<close>.\<close>

record DeliverCall =
  dc_to :: Recipient
  dc_from :: string
  dc_recipients :: "Recipient list"
  dc_prefix :: string
  dc_content :: string

datatype deliver_error = DeliverError

text \<open>
  The session and the world around it.
  \<^item> \<open>sid\<close> .. \<open>recipients\<close> are the fields of Go's \<^verbatim>\<open>Session\<close> (\<open>sid\<close> for \<^verbatim>\<open>id\<close>,
    \<open>from_addr\<close> for \<^verbatim>\<open>from\<close>).
  \<^item> \<open>incoming\<close> is what the peer sends and the buffered reader has not handed out yet;
    \<open>incomingEnd\<close> is the error a read reports once no complete line is left. A failure
    of \<^verbatim>\<open>SetReadDeadline\<close> reaches the handler as the same kind of error return, so it
    is a world whose \<open>incoming\<close> ends there.
  \<^item> \<open>writeResults\<close> schedules the outcomes of the coming \<^verbatim>\<open>send\<close> calls (none left:
    the call succeeds); \<open>outgoing\<close> collects the payloads written.
  \<^item> \<open>expReceivedTotal\<close>, \<open>expWarnsTotal\<close>, \<open>expErrorsTotal\<close> are the expvar counters.
  \<^item> \<open>clock\<close> and \<open>ticks\<close>: the formatted result of the k-th \<^verbatim>\<open>time.Now()\<close>.
  \<^item> \<open>delivered\<close> is the log of the calls made to the delivery manager.
\<close>

record World =
  sid :: int
  remoteDomain :: string
  remoteHost :: string
  sendError :: "io_error option"
  state :: State
  from_addr :: string
  recipients :: "Recipient list"
  incoming :: string
  incomingEnd :: io_error
  writeResults :: "write_result list"
  outgoing :: "string list"
  expReceivedTotal :: int
  expWarnsTotal :: int
  expErrorsTotal :: int
  clock :: "nat \<Rightarrow> string"
  ticks :: nat
  delivered :: "DeliverCall list"

text \<open>
  The \<^verbatim>\<open>Server\<close> fields the session reads, with its collaborators as functions:
  \<^verbatim>\<open>apolicy.NewRecipient\<close>, \<^verbatim>\<open>policy.ParseEmailAddress\<close> (true when it returns no
  error) and \<^verbatim>\<open>manager.Deliver\<close>, whose result may depend on the calls made before.
  \<open>unicodeUpper\<close> is no field of the server but a constant of the library it runs on:
  the upper case that the Unicode tables give for a rune beyond ASCII.
\<close>

record Server =
  domain :: string
  maxMessageBytes :: int
  maxRecips :: int
  NewRecipient :: "string \<Rightarrow> Recipient option"
  ParseEmailAddress :: "string \<Rightarrow> bool"
  Deliver :: "DeliverCall list \<Rightarrow> DeliverCall \<Rightarrow> deliver_error + string"
  unicodeUpper :: "nat \<Rightarrow> nat"

subsection \<open>Logging, replies and state changes\<close>

text \<open>
  \<^verbatim>\<open>logTrace\<close> and \<^verbatim>\<open>logInfo\<close> only write to the log and are left out; \<^verbatim>\<open>logWarn\<close> and
  \<^verbatim>\<open>logError\<close> also bump a counter.
\<close>

definition logWarn :: "World \<Rightarrow> World" where
  "logWarn w = w\<lparr>expWarnsTotal := expWarnsTotal w + 1\<rparr>"

definition logError :: "World \<Rightarrow> World" where
  "logError w = w\<lparr>expErrorsTotal := expErrorsTotal w + 1\<rparr>"

definition send :: "World \<Rightarrow> string \<Rightarrow> World" where
  "send w msg =
     (case writeResults w of
        [] \<Rightarrow> w\<lparr>outgoing := outgoing w @ [msg @ CRLF]\<rparr>
      | WriteOk # rest \<Rightarrow> w\<lparr>writeResults := rest, outgoing := outgoing w @ [msg @ CRLF]\<rparr>
      | DeadlineFailed e # rest \<Rightarrow> w\<lparr>writeResults := rest, sendError := Some e\<rparr>
      | WriteFailed e # rest \<Rightarrow> logWarn (w\<lparr>writeResults := rest, sendError := Some e\<rparr>))"

definition enterState :: "World \<Rightarrow> State \<Rightarrow> World" where
  "enterState w st = w\<lparr>state := st\<rparr>"

definition reset :: "World \<Rightarrow> World" where
  "reset w = (enterState w READY)\<lparr>from_addr := [], recipients := []\<rparr>"

definition ooSeq :: "World \<Rightarrow> string \<Rightarrow> World" where
  "ooSeq w cmd = logWarn (send w (''503 Command '' @ cmd @ '' is out of sequence''))"

definition greet :: "Server \<Rightarrow> World \<Rightarrow> World" where
  "greet srv w = send w (''220 '' @ domain srv @ '' Inbucket SMTP ready'')"

subsection \<open>Reading lines\<close>

text \<open>
  \<^verbatim>\<open>reader.ReadBytes('\n')\<close>: the bytes up to and including the first line feed, or the
  error of the connection when no line feed is left (the bytes read so far are dropped
  by both callers).
\<close>

definition ReadBytes :: "World \<Rightarrow> (io_error + string) \<times> World" where
  "ReadBytes w =
     (if LF \<in> set (incoming w)
      then (Inr (takeWhile (\<lambda>c. c \<noteq> LF) (incoming w) @ [LF]),
            w\<lparr>incoming := tl (dropWhile (\<lambda>c. c \<noteq> LF) (incoming w))\<rparr>)
      else (Inl (incomingEnd w), w\<lparr>incoming := []\<rparr>))"

definition readByteLine :: "World \<Rightarrow> (io_error + string) \<times> World" where
  "readByteLine w = ReadBytes w"

definition readLine :: "World \<Rightarrow> (io_error + string) \<times> World" where
  "readLine w = ReadBytes w"

subsection \<open>The command parser\<close>

definition parseCmd :: "Server \<Rightarrow> World \<Rightarrow> string \<Rightarrow> (string \<times> string \<times> bool) \<times> World" where
  "parseCmd srv w line0 =
     (let line = TrimRight line0 CRLF; l = length line in
      if l = 0 then (([], [], True), w)
      else if l < 4 then (([], [], False), logWarn w)
      else if l = 4 then ((ToUpper (unicodeUpper srv) line, [], True), w)
      else if l = 5 then (([], [], False), logWarn w)
      else if line ! 4 \<noteq> CHR '' '' then (([], [], False), logWarn w)
      else ((ToUpper (unicodeUpper srv) (take 4 line), Trim (drop 5 line) '' '', True), w))"

subsection \<open>The regular expressions of the envelope parsers\<close>

text \<open>The classes \<^verbatim>\<open>\s\<close> (tab, line feed, form feed, carriage return, space) and \<^verbatim>\<open>\w\<close>.\<close>

definition isSpaceRE :: "char \<Rightarrow> bool" where
  "isSpaceRE c = (c \<in> set [CHR 0x09, CHR 0x0A, CHR 0x0C, CHR 0x0D, CHR '' ''])"

definition isWordRE :: "char \<Rightarrow> bool" where
  "isWordRE c = (c \<in> set (digitChars @ upperLetters @ lowerLetters @ ''_''))"

text \<open>
  The pattern of \<^verbatim>\<open>readyHandler\<close>,
  \<^verbatim>\<open>(?i)^FROM:\s*<((?:\\>|[^>])+|"[^"]+"@[^>]+)>( [\w= ]+)?$\<close>,
  piece by piece. \<open>escapedAddr\<close> is the first alternative of group 1 with the \<^verbatim>\<open>+\<close>
  replaced by \<^verbatim>\<open>*\<close>: a sequence of tokens, each one \<^verbatim>\<open>\>\<close> or a byte other than
  \<^verbatim>\<open>>\<close>.
\<close>

fun escapedAddr :: "string \<Rightarrow> bool" where
  "escapedAddr [] = True"
| "escapedAddr [c] = (c \<noteq> CHR ''>'')"
| "escapedAddr (c # d # ds) =
     ((c = CHR 0x5C \<and> d = CHR ''>'' \<and> escapedAddr ds) \<or> (c \<noteq> CHR ''>'' \<and> escapedAddr (d # ds)))"

text \<open>The second alternative of group 1, \<^verbatim>\<open>"[^"]+"@[^>]+\<close>.\<close>

definition quotedAddr :: "string \<Rightarrow> bool" where
  "quotedAddr s =
     (case s of
        [] \<Rightarrow> False
      | c # r \<Rightarrow>
          c = CHR 0x22 \<and> takeWhile (\<lambda>x. x \<noteq> CHR 0x22) r \<noteq> [] \<and>
          (case dropWhile (\<lambda>x. x \<noteq> CHR 0x22) r of
             a # b # host \<Rightarrow> a = CHR 0x22 \<and> b = CHR ''@'' \<and> host \<noteq> [] \<and> CHR ''>'' \<notin> set host
           | _ \<Rightarrow> False))"

definition group1 :: "string \<Rightarrow> bool" where
  "group1 s = ((s \<noteq> [] \<and> escapedAddr s) \<or> quotedAddr s)"

text \<open>
  \<^verbatim>\<open>[\w= ]*\<close> under the flag \<^verbatim>\<open>(?i)\<close>: case folding adds to \<^verbatim>\<open>\w\<close> the two
  non-ASCII runes that fold to a letter, U+017F (bytes C5 BF) and U+212A (bytes E2 84 AA).
\<close>

fun paramChars :: "string \<Rightarrow> bool" where
  "paramChars [] = True"
| "paramChars (c # cs) =
     (if isWordRE c \<or> c = CHR ''='' \<or> c = CHR '' '' then paramChars cs
      else if c = CHR 0xC5 \<and> take 1 cs = [CHR 0xBF] then paramChars (drop 1 cs)
      else if c = CHR 0xE2 \<and> take 2 cs = [CHR 0x84, CHR 0xAA] then paramChars (drop 2 cs)
      else False)"

text \<open>Group 2, \<^verbatim>\<open>( [\w= ]+)?\<close>: absent, or a space and at least one more character.\<close>

definition group2 :: "string \<Rightarrow> bool" where
  "group2 s = (s = [] \<or> (hd s = CHR '' '' \<and> tl s \<noteq> [] \<and> paramChars (tl s)))"

text \<open>
  Every way of writing \<open>s\<close> as \<open>g1 @ ''>'' @ g2\<close>, the longest \<open>g1\<close> first, as the greedy
  repetitions try them. (Group 2 contains no \<^verbatim>\<open>>\<close>, so at most one of them can match.)
\<close>

fun splitsAtGt :: "string \<Rightarrow> string \<Rightarrow> (string \<times> string) list" where
  "splitsAtGt pre [] = []"
| "splitsAtGt pre (c # cs) =
     splitsAtGt (pre @ [c]) cs @ (if c = CHR ''>'' then [(pre, cs)] else [])"

text \<open>\<^verbatim>\<open>re.FindStringSubmatch(arg)\<close>: \<open>None\<close> for \<^verbatim>\<open>nil\<close>, else \<^verbatim>\<open>m[1]\<close> and \<^verbatim>\<open>m[2]\<close>.\<close>

definition matchMailFrom :: "string \<Rightarrow> (string \<times> string) option" where
  "matchMailFrom arg =
     (if map upperByte (take 5 arg) = ''FROM:''
      then (case dropWhile isSpaceRE (drop 5 arg) of
              [] \<Rightarrow> None
            | c # s \<Rightarrow>
                if c = CHR ''<''
                then find (\<lambda>(g1, g2). group1 g1 \<and> group2 g2) (splitsAtGt [] s)
                else None)
      else None)"

text \<open>
  One attempt to match the pattern of \<^verbatim>\<open>parseArgs\<close>, \<^verbatim>\<open> (\w+)=(\w+)\<close>, at the head of
  \<open>s\<close>: the two groups and the text after the match.
\<close>

definition matchParam :: "string \<Rightarrow> (string \<times> string \<times> string) option" where
  "matchParam s =
     (case s of
        [] \<Rightarrow> None
      | c # r \<Rightarrow>
          if c = CHR '' '' \<and> takeWhile isWordRE r \<noteq> []
          then (case dropWhile isWordRE r of
                  [] \<Rightarrow> None
                | e # r2 \<Rightarrow>
                    if e = CHR ''='' \<and> takeWhile isWordRE r2 \<noteq> []
                    then Some (takeWhile isWordRE r, takeWhile isWordRE r2, dropWhile isWordRE r2)
                    else None)
          else None)"

lemma matchParam_shorter:
  "matchParam s = Some (k, v, rest) \<Longrightarrow> length rest < length s"
proof -
  assume m: "matchParam s = Some (k, v, rest)"
  then obtain c r where s: "s = c # r"
    by (cases s) (auto simp: matchParam_def)
  from m s obtain e r2 where d: "dropWhile isWordRE r = e # r2" and rest: "rest = dropWhile isWordRE r2"
    by (auto simp: matchParam_def split: if_splits list.splits)
  have "length (dropWhile isWordRE r2) \<le> length r2"
    by (rule length_dropWhile_le)
  moreover have "length (dropWhile isWordRE r) \<le> length r"
    by (rule length_dropWhile_le)
  ultimately show ?thesis
    using s d rest by simp
qed

text \<open>\<^verbatim>\<open>re.FindAllStringSubmatch(arg, -1)\<close>: the successive leftmost matches, groups only.\<close>

function findAllParams :: "string \<Rightarrow> (string \<times> string) list" where
  "findAllParams [] = []"
| "findAllParams (c # cs) =
     (case matchParam (c # cs) of
        None \<Rightarrow> findAllParams cs
      | Some (k, v, rest) \<Rightarrow> (k, v) # findAllParams rest)"
  by pat_completeness auto
termination
  by (relation "measure length") (auto dest: matchParam_shorter)

text \<open>
  \<^verbatim>\<open>parseArgs\<close>: \<open>None\<close> stands for \<^verbatim>\<open>(nil, false)\<close>. A later token overwrites an
  earlier one with the same upper-cased key.
\<close>

definition parseArgs :: "Server \<Rightarrow> World \<Rightarrow> string \<Rightarrow> (string \<rightharpoonup> string) option \<times> World" where
  "parseArgs srv w arg =
     (let pm = findAllParams arg in
      if pm = [] then (None, logWarn w)
      else (Some (foldl (\<lambda>args (k, v). args(ToUpper (unicodeUpper srv) k \<mapsto> v)) Map.empty pm), w))"

text \<open>Reading a Go map of strings: a missing key gives the empty string.\<close>

definition lookupStr :: "(string \<rightharpoonup> string) \<Rightarrow> string \<Rightarrow> string" where
  "lookupStr m k = (case m k of None \<Rightarrow> [] | Some v \<Rightarrow> v)"

subsection \<open>strconv.ParseInt(s, 10, 32)\<close>

datatype num_error = ErrSyntax | ErrRange

definition digitVal :: "char \<Rightarrow> int option" where
  "digitVal c = map_of (zip digitChars [0, 1, 2, 3, 4, 5, 6, 7, 8, 9]) c"

text \<open>
  The digit loop of \<^verbatim>\<open>ParseUint\<close> for base 10 and 32 bits: a byte that is no decimal
  digit is a syntax error, a value beyond \<open>2^32 - 1\<close> a range error, reported as soon as
  it is met.
\<close>

fun parseDigits :: "int \<Rightarrow> string \<Rightarrow> num_error + int" where
  "parseDigits n [] = Inr n"
| "parseDigits n (c # cs) =
     (case digitVal c of
        None \<Rightarrow> Inl ErrSyntax
      | Some d \<Rightarrow> if n * 10 + d > 2 ^ 32 - 1 then Inl ErrRange else parseDigits (n * 10 + d) cs)"

definition ParseUint :: "string \<Rightarrow> num_error + int" where
  "ParseUint s = (if s = [] then Inl ErrSyntax else parseDigits 0 s)"

definition ParseInt :: "string \<Rightarrow> num_error + int" where
  "ParseInt s0 =
     (if s0 = [] then Inl ErrSyntax
      else
        let neg = (hd s0 = CHR ''-'');
            s = (if hd s0 = CHR ''+'' \<or> hd s0 = CHR ''-'' then tl s0 else s0)
        in case ParseUint s of
             Inl ErrSyntax \<Rightarrow> Inl ErrSyntax
           | Inl ErrRange \<Rightarrow> Inl ErrRange
           | Inr un \<Rightarrow>
               if \<not> neg \<and> un \<ge> 2 ^ 31 then Inl ErrRange
               else if neg \<and> un > 2 ^ 31 then Inl ErrRange
               else Inr (if neg then - un else un))"

subsection \<open>The handlers of the three command states\<close>

definition parseHelloArgument :: "string \<Rightarrow> string option" where
  "parseHelloArgument arg =
     (let dname = (if CHR '' '' \<in> set arg then takeWhile (\<lambda>c. c \<noteq> CHR '' '') arg else arg)
      in if dname = [] then None else Some dname)"

definition greetHandler :: "Server \<Rightarrow> World \<Rightarrow> string \<Rightarrow> string \<Rightarrow> World" where
  "greetHandler srv w cmd arg =
     (if cmd = ''HELO'' then
        (case parseHelloArgument arg of
           None \<Rightarrow> send w ''501 Domain/address argument required for HELO''
         | Some dname \<Rightarrow>
             enterState (send (w\<lparr>remoteDomain := dname\<rparr>)
               ''250 Great, let's get this show on the road'') READY)
      else if cmd = ''EHLO'' then
        (case parseHelloArgument arg of
           None \<Rightarrow> send w ''501 Domain/address argument required for EHLO''
         | Some dname \<Rightarrow>
             enterState
               (send (send (send (w\<lparr>remoteDomain := dname\<rparr>)
                  ''250-Great, let's get this show on the road'')
                  ''250-8BITMIME'')
                  (''250 SIZE '' @ itoa (maxMessageBytes srv)))
               READY)
      else ooSeq w cmd)"

text \<open>The common tail of \<^verbatim>\<open>readyHandler\<close>: the sender is accepted.\<close>

definition acceptMail :: "World \<Rightarrow> string \<Rightarrow> World" where
  "acceptMail w frm =
     enterState (send (w\<lparr>from_addr := frm\<rparr>) (''250 Roger, accepting mail from <'' @ frm @ ''>'')) MAIL"

definition readyHandler :: "Server \<Rightarrow> World \<Rightarrow> string \<Rightarrow> string \<Rightarrow> World" where
  "readyHandler srv w cmd arg =
     (if cmd = ''MAIL'' then
        (case matchMailFrom arg of
           None \<Rightarrow> logWarn (send w ''501 Was expecting MAIL arg syntax of FROM:<address>'')
         | Some (frm, params) \<Rightarrow>
             if \<not> ParseEmailAddress srv frm
             then logWarn (send w ''501 Bad sender address syntax'')
             else if params \<noteq> [] then
               (case parseArgs srv w params of
                  (None, w1) \<Rightarrow> logWarn (send w1 ''501 Unable to parse MAIL ESMTP parameters'')
                | (Some args, w1) \<Rightarrow>
                    if lookupStr args ''SIZE'' \<noteq> [] then
                      (case ParseInt (lookupStr args ''SIZE'') of
                         Inl err \<Rightarrow> logWarn (send w1 ''501 Unable to parse SIZE as an integer'')
                       | Inr sz \<Rightarrow>
                           if sz > maxMessageBytes srv
                           then logWarn (send w1 ''552 Max message size exceeded'')
                           else acceptMail w1 frm)
                    else acceptMail w1 frm)
             else acceptMail w frm)
      else ooSeq w cmd)"

definition mailHandler :: "Server \<Rightarrow> World \<Rightarrow> string \<Rightarrow> string \<Rightarrow> World" where
  "mailHandler srv w cmd arg =
     (if cmd = ''RCPT'' then
        (if length arg < 4 \<or> ToUpper (unicodeUpper srv) (take 3 arg) \<noteq> ''TO:''
         then logWarn (send w ''501 Was expecting RCPT arg syntax of TO:<address>'')
         else
           let addr = Trim (drop 3 arg) ''<> '' in
           case NewRecipient srv addr of
             None \<Rightarrow> logWarn (send w ''501 Bad recipient address syntax'')
           | Some recip \<Rightarrow>
               if int (length (recipients w)) \<ge> maxRecips srv
               then send (logWarn w)
                      (''552 Maximum limit of '' @ itoa (maxRecips srv) @ '' recipients reached'')
               else send (w\<lparr>recipients := recipients w @ [recip]\<rparr>)
                      (''250 I'll make sure <'' @ addr @ ''> gets this''))
      else if cmd = ''DATA'' then
        (if arg \<noteq> [] then logWarn (send w ''501 DATA command should not have any arguments'')
         else if length (recipients w) > 0 then enterState w DATA
         else ooSeq w cmd)
      else ooSeq w cmd)"

subsection \<open>The data phase\<close>

text \<open>Removing the leading period of a line (\<^verbatim>\<open>lineBuf = lineBuf[1:]\<close>).\<close>

definition unstuff :: "string \<Rightarrow> string" where
  "unstuff lineBuf =
     (if length lineBuf > 0 \<and> lineBuf ! 0 = CHR ''.'' then drop 1 lineBuf else lineBuf)"

definition receivedPrefix :: "Server \<Rightarrow> World \<Rightarrow> Recipient \<Rightarrow> string \<Rightarrow> string" where
  "receivedPrefix srv w recip tstamp =
     ''Received: from '' @ remoteDomain w @ '' (['' @ remoteHost w @ '']) by '' @ domain srv @ CRLF @
     ''  for <'' @ Address recip @ ''>; '' @ tstamp @ CRLF"

text \<open>The arguments of the \<^verbatim>\<open>Deliver\<close> call made for one recipient.\<close>

definition deliverCall :: "Server \<Rightarrow> World \<Rightarrow> string \<Rightarrow> string \<Rightarrow> Recipient \<Rightarrow> DeliverCall" where
  "deliverCall srv w tstamp content recip =
     \<lparr>dc_to = recip, dc_from = from_addr w, dc_recipients = recipients w,
      dc_prefix = receivedPrefix srv w recip tstamp, dc_content = content\<rparr>"

text \<open>
  The loop over \<^verbatim>\<open>ss.recipients\<close> after the terminator. The flag tells whether the loop
  ran to its end (\<open>True\<close>) or returned from the handler on a failed delivery.
\<close>

fun deliverAll :: "Server \<Rightarrow> string \<Rightarrow> string \<Rightarrow> Recipient list \<Rightarrow> World \<Rightarrow> bool \<times> World" where
  "deliverAll srv tstamp content [] w = (True, w)"
| "deliverAll srv tstamp content (recip # rest) w =
     (if ShouldStore recip then
        let call = deliverCall srv w tstamp content recip;
            w1 = w\<lparr>delivered := delivered w @ [call]\<rparr>
        in case Deliver srv (delivered w) call of
             Inl err \<Rightarrow>
               (False, reset (send (logError w1) (''451 Failed to store message for '' @ LocalPart recip)))
           | Inr _ \<Rightarrow>
               deliverAll srv tstamp content rest (w1\<lparr>expReceivedTotal := expReceivedTotal w1 + 1\<rparr>)
      else deliverAll srv tstamp content rest (w\<lparr>expReceivedTotal := expReceivedTotal w + 1\<rparr>))"

text \<open>What \<^verbatim>\<open>dataHandler\<close> does once it has read the terminator.\<close>

definition mailComplete :: "Server \<Rightarrow> string \<Rightarrow> World \<Rightarrow> World" where
  "mailComplete srv msgBuf w =
     (let tstamp = clock w (ticks w);
          w1 = w\<lparr>ticks := ticks w + 1\<rparr>
      in case deliverAll srv tstamp msgBuf (recipients w1) w1 of
           (False, w2) \<Rightarrow> w2
         | (True, w2) \<Rightarrow> reset (send w2 ''250 Mail accepted for delivery''))"

lemma ReadBytes_shorter:
  "ReadBytes w = (Inr line, w1) \<Longrightarrow> length (incoming w1) < length (incoming w)"
proof -
  assume r: "ReadBytes w = (Inr line, w1)"
  then have lf: "LF \<in> set (incoming w)"
    by (auto simp: ReadBytes_def split: if_splits)
  then have ne: "dropWhile (\<lambda>c. c \<noteq> LF) (incoming w) \<noteq> []"
    by (simp add: dropWhile_eq_Nil_conv)
  have le: "length (dropWhile (\<lambda>c. c \<noteq> LF) (incoming w)) \<le> length (incoming w)"
    by (rule length_dropWhile_le)
  from r lf have "incoming w1 = tl (dropWhile (\<lambda>c. c \<noteq> LF) (incoming w))"
    by (auto simp: ReadBytes_def)
  with ne le show ?thesis
    by (cases "dropWhile (\<lambda>c. c \<noteq> LF) (incoming w)") auto
qed

text \<open>The \<^verbatim>\<open>for\<close> loop of \<^verbatim>\<open>dataHandler\<close>, with \<^verbatim>\<open>msgBuf\<close> as an accumulator.\<close>

function dataLoop :: "Server \<Rightarrow> string \<Rightarrow> World \<Rightarrow> World" where
  "dataLoop srv msgBuf w =
     (case readByteLine w of
        (Inl err, w1) \<Rightarrow>
          enterState (logWarn (if err = Timeout then send w1 ''221 Idle timeout, bye bye'' else w1)) QUIT
      | (Inr lineBuf, w1) \<Rightarrow>
          if lineBuf = ''.'' @ CRLF \<or> lineBuf = ''.'' @ [LF] then mailComplete srv msgBuf w1
          else if int (length (msgBuf @ unstuff lineBuf)) > maxMessageBytes srv
          then reset (logWarn (send w1 ''552 Maximum message size exceeded''))
          else dataLoop srv (msgBuf @ unstuff lineBuf) w1)"
  by pat_completeness auto
termination
  by (relation "measure (\<lambda>(srv, msgBuf, w). length (incoming w))")
     (auto simp: readByteLine_def dest: ReadBytes_shorter [OF sym])

declare dataLoop.simps [simp del]

definition dataHandler :: "Server \<Rightarrow> World \<Rightarrow> World" where
  "dataHandler srv w = dataLoop srv [] (send w ''354 Start mail input; end with <CRLF>.<CRLF>'')"

subsection \<open>The command loop\<close>

datatype loop_ctl = Continue | Break

text \<open>One pass through the body of the \<^verbatim>\<open>for\<close> loop of \<^verbatim>\<open>startSession\<close>.\<close>

definition iteration :: "Server \<Rightarrow> World \<Rightarrow> loop_ctl \<times> World" where
  "iteration srv w =
     (if state w = DATA then (Continue, dataHandler srv w)
      else
        case readLine w of
          (Inr line, w1) \<Rightarrow>
            (case parseCmd srv w1 line of
               ((cmd, arg, True), w2) \<Rightarrow>
                 if cmd = [] then (Continue, send w2 ''500 Speak up'')
                 else if \<not> commands cmd
                 then (Continue, logWarn (send w2 (''500 Syntax error, '' @ cmd @ '' command unrecognized'')))
                 else if cmd \<in> set [''SEND'', ''SOML'', ''SAML'', ''EXPN'', ''HELP'', ''TURN'']
                 then (Continue, logWarn (send w2 (''502 '' @ cmd @ '' command not implemented'')))
                 else if cmd = ''VRFY''
                 then (Continue, send w2 ''252 Cannot VRFY user, but will accept message'')
                 else if cmd = ''NOOP''
                 then (Continue, send w2 ''250 I have sucessfully done nothing'')
                 else if cmd = ''RSET''
                 then (Continue, send (reset w2) ''250 Session reset'')
                 else if cmd = ''QUIT''
                 then (Continue, enterState (send w2 ''221 Goodnight and good luck'') QUIT)
                 else
                   (case state w2 of
                      GREET \<Rightarrow> (Continue, greetHandler srv w2 cmd arg)
                    | READY \<Rightarrow> (Continue, readyHandler srv w2 cmd arg)
                    | MAIL \<Rightarrow> (Continue, mailHandler srv w2 cmd arg)
                    | _ \<Rightarrow> (Break, logError w2))
             | ((cmd, arg, False), w2) \<Rightarrow> (Continue, send w2 ''500 Syntax error, command garbled''))
        | (Inl err, w1) \<Rightarrow>
            if err = EOF
            then (Break, if state w1 = GREET \<or> state w1 = READY then w1 else logWarn w1)
            else if err = Timeout
            then (Break, send (logWarn w1) ''221 Idle timeout, bye bye'')
            else (Break, send (logWarn w1) ''221 Connection error, sorry''))"

text \<open>
  \<^verbatim>\<open>NewSession\<close> on a connection, given as the world the session starts in: the state
  is \<open>GREET\<close>, the strings are empty, there is no recipient and no send error.
\<close>

definition NewSession :: "World \<Rightarrow> int \<Rightarrow> string \<Rightarrow> World" where
  "NewSession env i host =
     env\<lparr>sid := i, remoteDomain := [], remoteHost := host, sendError := None, state := GREET,
         from_addr := [], recipients := []\<rparr>"

text \<open>
  The worlds at the head of the loop of \<^verbatim>\<open>startSession\<close>: after the greeting, and after
  each pass that the loop condition lets start and that does not leave the loop.
\<close>

inductive reachable :: "Server \<Rightarrow> World \<Rightarrow> bool" for srv :: Server where
  start: "reachable srv (greet srv (NewSession env i host))"
| pass: "reachable srv w \<Longrightarrow> state w \<noteq> QUIT \<Longrightarrow> sendError w = None \<Longrightarrow>
         iteration srv w = (Continue, w') \<Longrightarrow> reachable srv w'"

text \<open>
  The invariant of the envelope: in \<open>DATA\<close> there is a recipient and a sender, in \<open>MAIL\<close>
  a sender.
\<close>

definition envelopeInv :: "World \<Rightarrow> bool" where
  "envelopeInv w \<longleftrightarrow>
     (state w = DATA \<longrightarrow> recipients w \<noteq> [] \<and> from_addr w \<noteq> []) \<and>
     (state w = MAIL \<longrightarrow> from_addr w \<noteq> [])"

text \<open>\<open>n\<close> passes of the loop, as long as its condition holds and no pass leaves it.\<close>

fun passes :: "nat \<Rightarrow> Server \<Rightarrow> World \<Rightarrow> World option" where
  "passes 0 srv w = Some w"
| "passes (Suc n) srv w =
     (if state w \<noteq> QUIT \<and> sendError w = None
      then (case iteration srv w of (Continue, w') \<Rightarrow> passes n srv w' | (Break, w') \<Rightarrow> None)
      else None)"

subsection \<open>Notions used to state the properties\<close>

text \<open>
  The connection takes the next \<open>n\<close> writes: none of the first \<open>n\<close> scheduled results
  of \<^verbatim>\<open>send\<close> is a failure.
\<close>

definition writesOk :: "nat \<Rightarrow> World \<Rightarrow> bool" where
  "writesOk n w = list_all (\<lambda>r. r = WriteOk) (take n (writeResults w))"

text \<open>
  A byte-line as \<open>ReadBytes\<close> hands it out: it ends with a line feed and has no other.
\<close>

definition byteLine :: "string \<Rightarrow> bool" where
  "byteLine l \<longleftrightarrow> l \<noteq> [] \<and> last l = LF \<and> LF \<notin> set (butlast l)"

text \<open>
  Dot-stuffing as the specification words it, on the side of the client: any leading
  period of a line of the body is doubled, and a line with a lone period ends the data.
\<close>

definition stuffLine :: "string \<Rightarrow> string" where
  "stuffLine l = (if l \<noteq> [] \<and> hd l = CHR ''.'' then CHR ''.'' # l else l)"

definition dotStuff :: "string list \<Rightarrow> string" where
  "dotStuff body = concat (map stuffLine body) @ ''.'' @ CRLF"

text \<open>
  Every call of the list succeeds when the calls are made one after the other on a
  manager that has seen the calls \<open>hist\<close>.
\<close>

fun deliveriesOk :: "Server \<Rightarrow> DeliverCall list \<Rightarrow> DeliverCall list \<Rightarrow> bool" where
  "deliveriesOk srv hist [] = True"
| "deliveriesOk srv hist (c # cs) =
     (case Deliver srv hist c of Inl err \<Rightarrow> False | Inr _ \<Rightarrow> deliveriesOk srv (hist @ [c]) cs)"

text \<open>
  The \<^verbatim>\<open>Deliver\<close> calls due for a message \<open>msgBuf\<close> completed in the world \<open>w\<close>: one for
  each recipient of \<open>rs\<close> whose \<^verbatim>\<open>ShouldStore()\<close> is true, in the order of \<open>rs\<close>.
\<close>

definition dueCalls :: "Server \<Rightarrow> World \<Rightarrow> string \<Rightarrow> Recipient list \<Rightarrow> DeliverCall list" where
  "dueCalls srv w msgBuf rs =
     map (deliverCall srv w (clock w (ticks w)) msgBuf) (filter ShouldStore rs)"

subsection \<open>A concrete server and connection\<close>

text \<open>
  A server with a limit of 20 bytes and 3 recipients. Its policy stores every recipient
  whose address does not start with \<^verbatim>\<open>x\<close>; its manager fails for the mailbox \<^verbatim>\<open>full\<close>.
  Of the case table it has the two entries that the examples use, U+00E9 to U+00C9 and
  U+017F to \<^verbatim>\<open>S\<close>; every other rune is left alone, as the table leaves \<open>RuneError\<close>.
\<close>

definition demoCaseTable :: "nat \<Rightarrow> nat" where
  "demoCaseTable r = (if r = 0xE9 then 0xC9 else if r = 0x17F then 0x53 else r)"

definition demoServer :: Server where
  "demoServer =
     \<lparr>domain = ''mail.test'', maxMessageBytes = 20, maxRecips = 3,
      NewRecipient = (\<lambda>a. if a = [] then None
         else Some \<lparr>Address = a, LocalPart = takeWhile (\<lambda>c. c \<noteq> CHR ''@'') a,
                    ShouldStore = (hd a \<noteq> CHR ''x'')\<rparr>),
      ParseEmailAddress = (\<lambda>a. CHR ''@'' \<in> set a),
      Deliver = (\<lambda>h c. if LocalPart (dc_to c) = ''full'' then Inl DeliverError else Inr ''id''),
      unicodeUpper = demoCaseTable\<rparr>"

definition demoWorld :: "string \<Rightarrow> World" where
  "demoWorld inp =
     \<lparr>sid = 1, remoteDomain = [], remoteHost = ''192.0.2.1'', sendError = None, state = GREET,
      from_addr = [], recipients = [], incoming = inp, incomingEnd = EOF, writeResults = [],
      outgoing = [], expReceivedTotal = 0, expWarnsTotal = 0, expErrorsTotal = 0,
      clock = (\<lambda>_. ''Mon, 02 Jan 2006 15:04:05 -0700 (MST)''), ticks = 0, delivered = []\<rparr>"

text \<open>Sessions of that server that have got as far as \<open>MAIL\<close> and \<open>READY\<close>.\<close>

definition demoRecipient :: Recipient where
  "demoRecipient = \<lparr>Address = ''b@ex'', LocalPart = ''b'', ShouldStore = True\<rparr>"

definition demoMail :: "string \<Rightarrow> World" where
  "demoMail inp = (demoWorld inp)\<lparr>remoteDomain := ''client.example'', state := MAIL,
     from_addr := ''a@ex'', recipients := [demoRecipient]\<rparr>"

definition demoReady :: "string \<Rightarrow> World" where
  "demoReady inp = (demoWorld inp)\<lparr>remoteDomain := ''client.example'', state := READY\<rparr>"

text \<open>A complete envelope on the wire, and the session it leads to.\<close>

definition demoInput :: string where
  "demoInput = ''HELO client.example'' @ CRLF @ ''MAIL FROM:<a@ex>'' @ CRLF @
     ''RCPT TO:<b@ex>'' @ CRLF @ ''DATA'' @ CRLF"

definition demoData :: "string \<Rightarrow> World" where
  "demoData inp = (demoMail inp)\<lparr>state := DATA, outgoing :=
     [''220 mail.test Inbucket SMTP ready'' @ CRLF,
      ''250 Great, let's get this show on the road'' @ CRLF,
      ''250 Roger, accepting mail from <a@ex>'' @ CRLF,
      ''250 I'll make sure <b@ex> gets this'' @ CRLF]\<rparr>"

text \<open>A recipient the policy does not store, and one whose mailbox the manager refuses.\<close>

definition demoUnstored :: Recipient where
  "demoUnstored = \<lparr>Address = ''x@ex'', LocalPart = ''x'', ShouldStore = False\<rparr>"

definition demoFull :: Recipient where
  "demoFull = \<lparr>Address = ''full@ex'', LocalPart = ''full'', ShouldStore = True\<rparr>"

text \<open>
  Sessions in the data phase: one whose only recipient is not stored, with a short
  message on the wire, one with three recipients, and one with a recipient the manager
  refuses.
\<close>

definition demoUnstoredMail :: World where
  "demoUnstoredMail = (demoData (''hi'' @ CRLF @ ''.'' @ CRLF))\<lparr>recipients := [demoUnstored]\<rparr>"

definition demoThree :: "string \<Rightarrow> World" where
  "demoThree inp = (demoData inp)\<lparr>recipients := [demoRecipient, demoUnstored, demoRecipient]\<rparr>"

definition demoRefused :: "string \<Rightarrow> World" where
  "demoRefused inp = (demoData inp)\<lparr>recipients := [demoRecipient, demoFull, demoRecipient]\<rparr>"

section \<open>Facts about the model\<close>

subsection \<open>What the basic operations leave alone\<close>

lemma logWarn_simps [simp]:
  "state (logWarn w) = state w" "from_addr (logWarn w) = from_addr w"
  "recipients (logWarn w) = recipients w" "remoteDomain (logWarn w) = remoteDomain w"
  "sendError (logWarn w) = sendError w" "incoming (logWarn w) = incoming w"
  "delivered (logWarn w) = delivered w" "expReceivedTotal (logWarn w) = expReceivedTotal w"
  "outgoing (logWarn w) = outgoing w" "writeResults (logWarn w) = writeResults w"
  by (simp_all add: logWarn_def)

lemma logError_simps [simp]:
  "state (logError w) = state w" "from_addr (logError w) = from_addr w"
  "recipients (logError w) = recipients w" "remoteDomain (logError w) = remoteDomain w"
  "sendError (logError w) = sendError w" "incoming (logError w) = incoming w"
  "delivered (logError w) = delivered w" "expReceivedTotal (logError w) = expReceivedTotal w"
  "outgoing (logError w) = outgoing w" "writeResults (logError w) = writeResults w"
  by (simp_all add: logError_def)

lemma send_simps [simp]:
  "state (send w msg) = state w" "from_addr (send w msg) = from_addr w"
  "recipients (send w msg) = recipients w" "remoteDomain (send w msg) = remoteDomain w"
  "incoming (send w msg) = incoming w"
  "delivered (send w msg) = delivered w" "expReceivedTotal (send w msg) = expReceivedTotal w"
  by (simp_all add: send_def logWarn_def split: list.split write_result.split)

lemma send_outgoing:
  "writeResults w = [] \<or> hd (writeResults w) = WriteOk \<Longrightarrow>
   outgoing (send w msg) = outgoing w @ [msg @ CRLF] \<and> sendError (send w msg) = sendError w"
  by (auto simp: send_def split: list.split write_result.split)

lemma enterState_simps [simp]:
  "state (enterState w st) = st" "from_addr (enterState w st) = from_addr w"
  "recipients (enterState w st) = recipients w" "remoteDomain (enterState w st) = remoteDomain w"
  "sendError (enterState w st) = sendError w" "incoming (enterState w st) = incoming w"
  "delivered (enterState w st) = delivered w" "expReceivedTotal (enterState w st) = expReceivedTotal w"
  "outgoing (enterState w st) = outgoing w" "writeResults (enterState w st) = writeResults w"
  by (simp_all add: enterState_def)

lemma reset_simps [simp]:
  "state (reset w) = READY" "from_addr (reset w) = []"
  "recipients (reset w) = []" "remoteDomain (reset w) = remoteDomain w"
  "sendError (reset w) = sendError w" "incoming (reset w) = incoming w"
  "delivered (reset w) = delivered w" "expReceivedTotal (reset w) = expReceivedTotal w"
  "outgoing (reset w) = outgoing w" "writeResults (reset w) = writeResults w"
  by (simp_all add: reset_def enterState_def)

lemma writesOk_frame:
  "writeResults w' = writeResults w \<Longrightarrow> writesOk n w' = writesOk n w"
  by (simp add: writesOk_def)

lemma writesOk_simps [simp]:
  "writesOk n (logWarn w) = writesOk n w" "writesOk n (logError w) = writesOk n w"
  "writesOk n (enterState w st) = writesOk n w" "writesOk n (reset w) = writesOk n w"
  "writesOk n (w\<lparr>incoming := i\<rparr>) = writesOk n w"
  "writesOk n (w\<lparr>from_addr := f\<rparr>) = writesOk n w"
  "writesOk n (w\<lparr>recipients := rs\<rparr>) = writesOk n w"
  "writesOk n (w\<lparr>ticks := k\<rparr>) = writesOk n w"
  "writesOk n (w\<lparr>delivered := d\<rparr>) = writesOk n w"
  "writesOk n (w\<lparr>expReceivedTotal := e\<rparr>) = writesOk n w"
  by (simp_all add: writesOk_def)

lemma send_ok:
  assumes "writesOk (Suc n) w"
  shows "outgoing (send w msg) = outgoing w @ [msg @ CRLF]"
    and "writesOk n (send w msg)"
    and "sendError (send w msg) = sendError w"
  using assms by (auto simp: writesOk_def send_def split: list.split write_result.split)

lemmas str_defs = CRLF_def CR_def LF_def TrimRight_def TrimLeft_def Trim_def ToUpper_def upperByte_def
  lowerLetters_def upperLetters_def digitChars_def

subsection \<open>Reading and dispatching a command\<close>

lemma ReadBytes_line:
  assumes "LF \<notin> set l" and "incoming w = l @ LF # rest"
  shows "ReadBytes w = (Inr (l @ [LF]), w\<lparr>incoming := rest\<rparr>)"
proof -
  have a: "\<forall>x\<in>set l. x \<noteq> LF"
    using assms(1) by auto
  have "takeWhile (\<lambda>c. c \<noteq> LF) (l @ LF # rest) = l"
    using a by (simp add: takeWhile_append2)
  moreover have "dropWhile (\<lambda>c. c \<noteq> LF) (l @ LF # rest) = LF # rest"
    using a by (simp add: dropWhile_append2)
  ultimately show ?thesis
    using assms(2) by (simp add: ReadBytes_def)
qed

lemma CR_not_LF [simp]: "CR \<noteq> LF" "LF \<noteq> CR"
  by (simp_all add: CR_def LF_def)

lemma readLine_line:
  assumes "LF \<notin> set l" and "incoming w = l @ CRLF @ rest"
  shows "readLine w = (Inr (l @ CRLF), w\<lparr>incoming := rest\<rparr>)"
  using ReadBytes_line [of "l @ [CR]" w rest] assms
  by (simp add: readLine_def CRLF_def)

lemma ReadBytes_world:
  "ReadBytes w = (r, w1) \<Longrightarrow> w1 = w\<lparr>incoming := incoming w1\<rparr>"
  by (auto simp: ReadBytes_def split: if_splits)

lemma readLine_fields:
  assumes "readLine w = (r, w1)"
  shows "state w1 = state w" and "from_addr w1 = from_addr w" and "recipients w1 = recipients w"
    and "remoteDomain w1 = remoteDomain w" and "sendError w1 = sendError w"
    and "delivered w1 = delivered w" and "expReceivedTotal w1 = expReceivedTotal w"
  using assms by (auto simp: readLine_def ReadBytes_def split: if_splits)

lemma readLine_wire:
  assumes "readLine w = (r, w1)"
  shows "outgoing w1 = outgoing w" and "writesOk n w1 = writesOk n w"
  using assms by (auto simp: readLine_def ReadBytes_def writesOk_def split: if_splits)

lemma parseCmd_ok_world:
  "parseCmd srv w line = ((cmd, arg, True), w2) \<Longrightarrow> w2 = w"
  by (auto simp: parseCmd_def Let_def split: if_splits)

lemma parseCmd_fields:
  assumes "parseCmd srv w line = (r, w2)"
  shows "state w2 = state w" and "from_addr w2 = from_addr w" and "recipients w2 = recipients w"
  using assms by (auto simp: parseCmd_def Let_def split: if_splits)

lemma iteration_dispatch:
  assumes "state w \<noteq> DATA" and "readLine w = (Inr line, w1)"
    and "fst (parseCmd srv w1 line) = (cmd, arg, True)"
    and "cmd \<in> set [''HELO'', ''EHLO'', ''MAIL'', ''RCPT'', ''DATA'']"
  shows "iteration srv w =
           (case state w of
              GREET \<Rightarrow> (Continue, greetHandler srv w1 cmd arg)
            | READY \<Rightarrow> (Continue, readyHandler srv w1 cmd arg)
            | MAIL \<Rightarrow> (Continue, mailHandler srv w1 cmd arg)
            | _ \<Rightarrow> (Break, logError w1))"
proof -
  obtain w2 where p: "parseCmd srv w1 line = ((cmd, arg, True), w2)"
    using assms(3) by (cases "parseCmd srv w1 line") auto
  then have w2: "w2 = w1"
    by (rule parseCmd_ok_world)
  have st: "state w1 = state w"
    using assms(2) by (rule readLine_fields)
  from assms(4) have c: "cmd \<noteq> []" "commands cmd"
    "cmd \<notin> set [''SEND'', ''SOML'', ''SAML'', ''EXPN'', ''HELP'', ''TURN'']"
    "cmd \<noteq> ''VRFY''" "cmd \<noteq> ''NOOP''" "cmd \<noteq> ''RSET''" "cmd \<noteq> ''QUIT''"
    by (auto simp: commands_def)
  show ?thesis
    unfolding iteration_def using assms(1,2) p c by (simp add: w2 st)
qed





lemma acceptMail_simps [simp]:
  "state (acceptMail w frm) = MAIL" "from_addr (acceptMail w frm) = frm"
  "recipients (acceptMail w frm) = recipients w"
  by (simp_all add: acceptMail_def)

lemmas re_defs = matchMailFrom_def isSpaceRE_def isWordRE_def group1_def group2_def quotedAddr_def
  matchParam_def






subsection \<open>Lines of the data phase\<close>

lemma byteLine_split: "byteLine l \<Longrightarrow> l = butlast l @ [LF] \<and> LF \<notin> set (butlast l)"
  by (auto simp: byteLine_def dest: append_butlast_last_id)

lemma readByteLine_line:
  assumes "byteLine l" and "incoming w = l @ rest"
  shows "readByteLine w = (Inr l, w\<lparr>incoming := rest\<rparr>)"
proof -
  from byteLine_split [OF assms(1)] obtain b where l: "l = b @ [LF]" and b: "LF \<notin> set b"
    by blast
  show ?thesis
    using ReadBytes_line [OF b, of w rest] assms(2) by (simp add: readByteLine_def l)
qed

lemma dataLoop_terminator:
  assumes "readByteLine w = (Inr l, w1)" and "l = ''.'' @ CRLF \<or> l = ''.'' @ [LF]"
  shows "dataLoop srv msgBuf w = mailComplete srv msgBuf w1"
  using assms by (subst dataLoop.simps) auto

lemma dataLoop_line:
  assumes "readByteLine w = (Inr l, w1)" and "l \<noteq> ''.'' @ CRLF" and "l \<noteq> ''.'' @ [LF]"
  shows "dataLoop srv msgBuf w =
           (if int (length (msgBuf @ unstuff l)) > maxMessageBytes srv
            then reset (logWarn (send w1 ''552 Maximum message size exceeded''))
            else dataLoop srv (msgBuf @ unstuff l) w1)"
  using assms by (subst dataLoop.simps) simp

lemma dataLoop_error:
  assumes "readByteLine w = (Inl err, w1)"
  shows "dataLoop srv msgBuf w =
           enterState (logWarn (if err = Timeout then send w1 ''221 Idle timeout, bye bye'' else w1)) QUIT"
  using assms by (subst dataLoop.simps) simp

lemma dataLoop_lines:
  assumes "\<forall>l\<in>set ls. byteLine l \<and> l \<noteq> ''.'' @ CRLF \<and> l \<noteq> ''.'' @ [LF]"
    and "int (length (msgBuf @ concat (map unstuff ls))) \<le> maxMessageBytes srv"
  shows "dataLoop srv msgBuf (w\<lparr>incoming := concat ls @ rest\<rparr>) =
         dataLoop srv (msgBuf @ concat (map unstuff ls)) (w\<lparr>incoming := rest\<rparr>)"
  using assms
proof (induction ls arbitrary: msgBuf w)
  case Nil
  then show ?case by simp
next
  case (Cons l ls)
  let ?w = "w\<lparr>incoming := concat (l # ls) @ rest\<rparr>"
  have r: "readByteLine ?w = (Inr l, w\<lparr>incoming := concat ls @ rest\<rparr>)"
    using readByteLine_line [of l ?w "concat ls @ rest"] Cons.prems(1) by simp
  have small: "\<not> int (length (msgBuf @ unstuff l)) > maxMessageBytes srv"
    using Cons.prems(2) by simp
  have "dataLoop srv msgBuf ?w = dataLoop srv (msgBuf @ unstuff l) (w\<lparr>incoming := concat ls @ rest\<rparr>)"
    using dataLoop_line [OF r] Cons.prems(1) small by simp
  also have "\<dots> = dataLoop srv ((msgBuf @ unstuff l) @ concat (map unstuff ls)) (w\<lparr>incoming := rest\<rparr>)"
    using Cons.prems by (intro Cons.IH) simp_all
  finally show ?case by simp
qed

lemma dataLoop_overflow:
  assumes "\<forall>l\<in>set ls. byteLine l \<and> l \<noteq> ''.'' @ CRLF \<and> l \<noteq> ''.'' @ [LF]"
    and "ls \<noteq> []"
    and "int (length (msgBuf @ concat (map unstuff ls))) > maxMessageBytes srv"
  shows "\<exists>n. dataLoop srv msgBuf (w\<lparr>incoming := concat ls @ rest\<rparr>) =
           reset (logWarn (send (w\<lparr>incoming := drop n (concat ls @ rest)\<rparr>)
             ''552 Maximum message size exceeded''))"
  using assms
proof (induction ls arbitrary: msgBuf w)
  case Nil
  then show ?case by simp
next
  case (Cons l ls)
  let ?w = "w\<lparr>incoming := concat (l # ls) @ rest\<rparr>"
  let ?w1 = "w\<lparr>incoming := concat ls @ rest\<rparr>"
  have r: "readByteLine ?w = (Inr l, ?w1)"
    using readByteLine_line [of l ?w "concat ls @ rest"] Cons.prems(1) by simp
  have step: "dataLoop srv msgBuf ?w =
      (if int (length (msgBuf @ unstuff l)) > maxMessageBytes srv
       then reset (logWarn (send ?w1 ''552 Maximum message size exceeded''))
       else dataLoop srv (msgBuf @ unstuff l) ?w1)"
    using dataLoop_line [OF r] Cons.prems(1) by simp
  show ?case
  proof (cases "int (length (msgBuf @ unstuff l)) > maxMessageBytes srv")
    case True
    have "drop (length l) (concat (l # ls) @ rest) = concat ls @ rest"
      by simp
    with step True show ?thesis
      by (metis (no_types))
  next
    case False
    with Cons.prems(3) have ne: "ls \<noteq> []"
      by auto
    have big: "int (length ((msgBuf @ unstuff l) @ concat (map unstuff ls))) > maxMessageBytes srv"
      using Cons.prems(3) by simp
    from Cons.IH [OF _ ne big, of w] Cons.prems(1)
    obtain n where n: "dataLoop srv (msgBuf @ unstuff l) ?w1 =
        reset (logWarn (send (w\<lparr>incoming := drop n (concat ls @ rest)\<rparr>)
          ''552 Maximum message size exceeded''))"
      by auto
    have "drop (length l + n) (concat (l # ls) @ rest) = drop n (concat ls @ rest)"
      by (simp add: drop_append)
    with step False n show ?thesis
      by (metis (no_types))
  qed
qed

lemma send_incoming: "send (w\<lparr>incoming := x\<rparr>) msg = (send w msg)\<lparr>incoming := x\<rparr>"
  by (simp add: send_def logWarn_def split: list.split write_result.split)

lemma period_not_newline [simp]:
  "CHR ''.'' \<noteq> CR" "CHR ''.'' \<noteq> LF" "CR \<noteq> CHR ''.''" "LF \<noteq> CHR ''.''"
  by (simp_all add: CR_def LF_def)

lemma byteLine_terminators: "byteLine (''.'' @ CRLF)" "byteLine (''.'' @ [LF])"
  by (simp_all add: byteLine_def CRLF_def)

lemma stuffLine_facts:
  assumes "byteLine l"
  shows "byteLine (stuffLine l)" and "stuffLine l \<noteq> ''.'' @ CRLF" and "stuffLine l \<noteq> ''.'' @ [LF]"
    and "unstuff (stuffLine l) = l"
proof -
  from assms obtain c cs where l: "l = c # cs"
    by (cases l) (auto simp: byteLine_def)
  show "byteLine (stuffLine l)"
    using assms by (auto simp: byteLine_def stuffLine_def l)
  show "stuffLine l \<noteq> ''.'' @ CRLF" "stuffLine l \<noteq> ''.'' @ [LF]"
    by (auto simp: stuffLine_def l CRLF_def)
  show "unstuff (stuffLine l) = l"
    by (auto simp: stuffLine_def unstuff_def l)
qed

lemma unstuff_stuffed: "\<forall>l\<in>set body. byteLine l \<Longrightarrow> concat (map unstuff (map stuffLine body)) = concat body"
  by (induction body) (simp_all add: stuffLine_facts)

lemma dataHandler_lines:
  assumes "\<forall>l\<in>set ls. byteLine l \<and> l \<noteq> ''.'' @ CRLF \<and> l \<noteq> ''.'' @ [LF]"
    and "int (length (concat (map unstuff ls))) \<le> maxMessageBytes srv"
    and "t = ''.'' @ CRLF \<or> t = ''.'' @ [LF]"
  shows "dataHandler srv (w\<lparr>incoming := concat ls @ t @ rest\<rparr>) =
         mailComplete srv (concat (map unstuff ls))
           ((send w ''354 Start mail input; end with <CRLF>.<CRLF>'')\<lparr>incoming := rest\<rparr>)"
proof -
  let ?s = "send w ''354 Start mail input; end with <CRLF>.<CRLF>''"
  have bt: "byteLine t"
    using assms(3) byteLine_terminators by auto
  have "dataHandler srv (w\<lparr>incoming := concat ls @ t @ rest\<rparr>) =
      dataLoop srv [] (?s\<lparr>incoming := concat ls @ t @ rest\<rparr>)"
    by (simp add: dataHandler_def send_incoming)
  also have "\<dots> = dataLoop srv ([] @ concat (map unstuff ls)) (?s\<lparr>incoming := t @ rest\<rparr>)"
    using assms(1,2) by (intro dataLoop_lines) simp_all
  also have "\<dots> = mailComplete srv (concat (map unstuff ls)) (?s\<lparr>incoming := rest\<rparr>)"
    using readByteLine_line [OF bt, of "?s\<lparr>incoming := t @ rest\<rparr>" rest] assms(3)
    by (simp add: dataLoop_terminator)
  finally show ?thesis .
qed

subsection \<open>The delivery loop\<close>

lemma deliverCall_cong:
  assumes "from_addr w' = from_addr w" and "recipients w' = recipients w"
    and "remoteDomain w' = remoteDomain w" and "remoteHost w' = remoteHost w"
  shows "deliverCall srv w' = deliverCall srv w"
  using assms by (simp add: deliverCall_def receivedPrefix_def fun_eq_iff)

lemma send_env:
  "clock (send w msg) = clock w" "ticks (send w msg) = ticks w"
  "remoteHost (send w msg) = remoteHost w"
  by (simp_all add: send_def logWarn_def split: list.split write_result.split)

lemma dueCalls_cong:
  assumes "from_addr w' = from_addr w" and "recipients w' = recipients w"
    and "remoteDomain w' = remoteDomain w" and "remoteHost w' = remoteHost w"
    and "clock w' = clock w" and "ticks w' = ticks w"
  shows "dueCalls srv w' = dueCalls srv w"
  using assms deliverCall_cong [OF assms(1-4), of srv] by (simp add: dueCalls_def fun_eq_iff)

lemma deliveriesOk_append:
  "deliveriesOk srv hist (xs @ ys) \<longleftrightarrow>
     deliveriesOk srv hist xs \<and> deliveriesOk srv (hist @ xs) ys"
  by (induction xs arbitrary: hist) (auto split: sum.splits)

lemma deliverAll_ok:
  assumes "deliveriesOk srv (delivered w) (map (deliverCall srv w tstamp content) (filter ShouldStore rs))"
  shows "deliverAll srv tstamp content rs w =
           (True, w\<lparr>delivered := delivered w @ map (deliverCall srv w tstamp content) (filter ShouldStore rs),
                     expReceivedTotal := expReceivedTotal w + int (length rs)\<rparr>)"
  using assms
proof (induction rs arbitrary: w)
  case Nil
  then show ?case by simp
next
  case (Cons r rs)
  let ?mk = "deliverCall srv w tstamp content"
  show ?case
  proof (cases "ShouldStore r")
    case False
    let ?w1 = "w\<lparr>expReceivedTotal := expReceivedTotal w + 1\<rparr>"
    have mk: "deliverCall srv ?w1 = deliverCall srv w"
      by (rule deliverCall_cong) simp_all
    have "deliverAll srv tstamp content rs ?w1 =
        (True, ?w1\<lparr>delivered := delivered ?w1 @ map (deliverCall srv ?w1 tstamp content) (filter ShouldStore rs),
                    expReceivedTotal := expReceivedTotal ?w1 + int (length rs)\<rparr>)"
      using Cons.prems False by (intro Cons.IH) (simp add: mk)
    then show ?thesis
      using False by (simp add: mk add.assoc)
  next
    case True
    let ?w1 = "w\<lparr>delivered := delivered w @ [?mk r], expReceivedTotal := expReceivedTotal w + 1\<rparr>"
    have mk: "deliverCall srv ?w1 = deliverCall srv w"
      by (rule deliverCall_cong) simp_all
    from Cons.prems True obtain x where d: "Deliver srv (delivered w) (?mk r) = Inr x"
      and rest: "deliveriesOk srv (delivered w @ [?mk r]) (map ?mk (filter ShouldStore rs))"
      by (auto split: sum.splits)
    have "deliverAll srv tstamp content rs ?w1 =
        (True, ?w1\<lparr>delivered := delivered ?w1 @ map (deliverCall srv ?w1 tstamp content) (filter ShouldStore rs),
                    expReceivedTotal := expReceivedTotal ?w1 + int (length rs)\<rparr>)"
      using rest by (intro Cons.IH) (simp add: mk)
    then show ?thesis
      using True d by (simp add: mk Let_def add.assoc)
  qed
qed

lemma deliverAll_fail:
  assumes "ShouldStore r"
    and "deliveriesOk srv (delivered w) (map (deliverCall srv w tstamp content) (filter ShouldStore rpre))"
    and "Deliver srv (delivered w @ map (deliverCall srv w tstamp content) (filter ShouldStore rpre))
           (deliverCall srv w tstamp content r) = Inl e"
  shows "deliverAll srv tstamp content (rpre @ r # rpost) w =
           (False, reset (send (logError
              (w\<lparr>delivered := delivered w @ map (deliverCall srv w tstamp content) (filter ShouldStore rpre) @
                                 [deliverCall srv w tstamp content r],
                 expReceivedTotal := expReceivedTotal w + int (length rpre)\<rparr>))
              (''451 Failed to store message for '' @ LocalPart r)))"
  using assms(2,3)
proof (induction rpre arbitrary: w)
  case Nil
  then show ?case
    using assms(1) by (simp add: Let_def)
next
  case (Cons q rpre)
  let ?mk = "deliverCall srv w tstamp content"
  show ?case
  proof (cases "ShouldStore q")
    case False
    let ?w1 = "w\<lparr>expReceivedTotal := expReceivedTotal w + 1\<rparr>"
    have mk: "deliverCall srv ?w1 = deliverCall srv w"
      by (rule deliverCall_cong) simp_all
    have "deliverAll srv tstamp content (rpre @ r # rpost) ?w1 =
        (False, reset (send (logError
           (?w1\<lparr>delivered := delivered ?w1 @ map (deliverCall srv ?w1 tstamp content) (filter ShouldStore rpre) @
                                 [deliverCall srv ?w1 tstamp content r],
                 expReceivedTotal := expReceivedTotal ?w1 + int (length rpre)\<rparr>))
           (''451 Failed to store message for '' @ LocalPart r)))"
      using Cons.prems False by (intro Cons.IH) (simp_all add: mk)
    then show ?thesis
      using False by (simp add: mk add.assoc)
  next
    case True
    let ?w1 = "w\<lparr>delivered := delivered w @ [?mk q], expReceivedTotal := expReceivedTotal w + 1\<rparr>"
    have mk: "deliverCall srv ?w1 = deliverCall srv w"
      by (rule deliverCall_cong) simp_all
    from Cons.prems(1) True obtain x where d: "Deliver srv (delivered w) (?mk q) = Inr x"
      and rest: "deliveriesOk srv (delivered w @ [?mk q]) (map ?mk (filter ShouldStore rpre))"
      by (auto split: sum.splits)
    have "deliverAll srv tstamp content (rpre @ r # rpost) ?w1 =
        (False, reset (send (logError
           (?w1\<lparr>delivered := delivered ?w1 @ map (deliverCall srv ?w1 tstamp content) (filter ShouldStore rpre) @
                                 [deliverCall srv ?w1 tstamp content r],
                 expReceivedTotal := expReceivedTotal ?w1 + int (length rpre)\<rparr>))
           (''451 Failed to store message for '' @ LocalPart r)))"
      using rest Cons.prems(2) True by (intro Cons.IH) (simp_all add: mk)
    then show ?thesis
      using True d by (simp add: mk Let_def add.assoc)
  qed
qed

lemma deliveries_cases:
  "deliveriesOk srv hist (map f (filter ShouldStore rs)) \<or>
   (\<exists>rpre r rpost e. rs = rpre @ r # rpost \<and> ShouldStore r \<and>
      deliveriesOk srv hist (map f (filter ShouldStore rpre)) \<and>
      Deliver srv (hist @ map f (filter ShouldStore rpre)) (f r) = Inl e)"
proof (induction rs rule: rev_induct)
  case Nil
  then show ?case by simp
next
  case (snoc q rs)
  from snoc.IH show ?case
  proof
    assume ok: "deliveriesOk srv hist (map f (filter ShouldStore rs))"
    show ?thesis
    proof (cases "ShouldStore q")
      case False
      with ok show ?thesis by simp
    next
      case True
      show ?thesis
      proof (cases "Deliver srv (hist @ map f (filter ShouldStore rs)) (f q)")
        case (Inl e)
        with ok True have "rs @ [q] = rs @ q # [] \<and> ShouldStore q \<and>
            deliveriesOk srv hist (map f (filter ShouldStore rs)) \<and>
            Deliver srv (hist @ map f (filter ShouldStore rs)) (f q) = Inl e"
          by simp
        then show ?thesis by blast
      next
        case (Inr x)
        with ok True show ?thesis
          by (simp add: deliveriesOk_append)
      qed
    qed
  next
    assume "\<exists>rpre r rpost e. rs = rpre @ r # rpost \<and> ShouldStore r \<and>
      deliveriesOk srv hist (map f (filter ShouldStore rpre)) \<and>
      Deliver srv (hist @ map f (filter ShouldStore rpre)) (f r) = Inl e"
    then obtain rpre r rpost e where "rs = rpre @ r # rpost" "ShouldStore r"
      "deliveriesOk srv hist (map f (filter ShouldStore rpre))"
      "Deliver srv (hist @ map f (filter ShouldStore rpre)) (f r) = Inl e"
      by blast
    then have "rs @ [q] = rpre @ r # (rpost @ [q]) \<and> ShouldStore r \<and>
      deliveriesOk srv hist (map f (filter ShouldStore rpre)) \<and>
      Deliver srv (hist @ map f (filter ShouldStore rpre)) (f r) = Inl e"
      by simp
    then show ?thesis by blast
  qed
qed

lemma mailComplete_ok:
  assumes "deliveriesOk srv (delivered w) (dueCalls srv w msgBuf (recipients w))"
  shows "mailComplete srv msgBuf w =
           reset (send (w\<lparr>ticks := ticks w + 1,
                          delivered := delivered w @ dueCalls srv w msgBuf (recipients w),
                          expReceivedTotal := expReceivedTotal w + int (length (recipients w))\<rparr>)
                   ''250 Mail accepted for delivery'')"
proof -
  let ?w1 = "w\<lparr>ticks := ticks w + 1\<rparr>"
  have mk: "deliverCall srv (w\<lparr>ticks := k\<rparr>) = deliverCall srv w" for k
    by (rule deliverCall_cong) simp_all
  have "deliverAll srv (clock w (ticks w)) msgBuf (recipients ?w1) ?w1 =
      (True, ?w1\<lparr>delivered := delivered ?w1 @
                 map (deliverCall srv ?w1 (clock w (ticks w)) msgBuf) (filter ShouldStore (recipients ?w1)),
               expReceivedTotal := expReceivedTotal ?w1 + int (length (recipients ?w1))\<rparr>)"
    using assms by (intro deliverAll_ok) (simp add: mk dueCalls_def)
  then show ?thesis
    by (simp add: mailComplete_def Let_def mk dueCalls_def)
qed

lemma mailComplete_fail:
  assumes "recipients w = rpre @ r # rpost" and "ShouldStore r"
    and "deliveriesOk srv (delivered w) (dueCalls srv w msgBuf rpre)"
    and "Deliver srv (delivered w @ dueCalls srv w msgBuf rpre)
           (deliverCall srv w (clock w (ticks w)) msgBuf r) = Inl e"
  shows "mailComplete srv msgBuf w =
           reset (send (logError
              (w\<lparr>ticks := ticks w + 1,
                 delivered := delivered w @ dueCalls srv w msgBuf rpre @
                              [deliverCall srv w (clock w (ticks w)) msgBuf r],
                 expReceivedTotal := expReceivedTotal w + int (length rpre)\<rparr>))
              (''451 Failed to store message for '' @ LocalPart r))"
proof -
  let ?w1 = "w\<lparr>ticks := ticks w + 1\<rparr>"
  have mk: "deliverCall srv (w\<lparr>ticks := k\<rparr>) = deliverCall srv w" for k
    by (rule deliverCall_cong) simp_all
  have "deliverAll srv (clock w (ticks w)) msgBuf (rpre @ r # rpost) ?w1 =
      (False, reset (send (logError
         (?w1\<lparr>delivered := delivered ?w1 @
                   map (deliverCall srv ?w1 (clock w (ticks w)) msgBuf) (filter ShouldStore rpre) @
                   [deliverCall srv ?w1 (clock w (ticks w)) msgBuf r],
                expReceivedTotal := expReceivedTotal ?w1 + int (length rpre)\<rparr>))
         (''451 Failed to store message for '' @ LocalPart r)))"
    using assms(2,3,4) by (intro deliverAll_fail) (simp_all add: mk dueCalls_def)
  then show ?thesis
    using assms(1) by (simp add: mailComplete_def Let_def mk dueCalls_def)
qed

lemma readByteLine_fields:
  assumes "readByteLine w = (r, w1)"
  shows "state w1 = state w" and "from_addr w1 = from_addr w" and "recipients w1 = recipients w"
    and "delivered w1 = delivered w" and "expReceivedTotal w1 = expReceivedTotal w"
  using assms by (auto simp: readByteLine_def ReadBytes_def split: if_splits)

lemma dueCalls_content: "\<forall>c\<in>set (dueCalls srv w msgBuf rs). dc_content c = msgBuf"
  by (simp add: dueCalls_def deliverCall_def)

lemma mailComplete_content:
  "\<exists>cs. delivered (mailComplete srv msgBuf w) = delivered w @ cs \<and> (\<forall>c\<in>set cs. dc_content c = msgBuf)"
proof -
  let ?f = "deliverCall srv w (clock w (ticks w)) msgBuf"
  from deliveries_cases [of srv "delivered w" ?f "recipients w"] show ?thesis
  proof
    assume "deliveriesOk srv (delivered w) (map ?f (filter ShouldStore (recipients w)))"
    then have "deliveriesOk srv (delivered w) (dueCalls srv w msgBuf (recipients w))"
      by (simp add: dueCalls_def)
    from mailComplete_ok [OF this]
    have "delivered (mailComplete srv msgBuf w) = delivered w @ dueCalls srv w msgBuf (recipients w)"
      by simp
    then show ?thesis
      using dueCalls_content by blast
  next
    assume "\<exists>rpre r rpost e. recipients w = rpre @ r # rpost \<and> ShouldStore r \<and>
      deliveriesOk srv (delivered w) (map ?f (filter ShouldStore rpre)) \<and>
      Deliver srv (delivered w @ map ?f (filter ShouldStore rpre)) (?f r) = Inl e"
    then obtain rpre r rpost e where h: "recipients w = rpre @ r # rpost" "ShouldStore r"
      "deliveriesOk srv (delivered w) (dueCalls srv w msgBuf rpre)"
      "Deliver srv (delivered w @ dueCalls srv w msgBuf rpre) (?f r) = Inl e"
      by (auto simp: dueCalls_def)
    from mailComplete_fail [OF h]
    have "delivered (mailComplete srv msgBuf w) = delivered w @ (dueCalls srv w msgBuf rpre @ [?f r])"
      by simp
    moreover have "\<forall>c\<in>set (dueCalls srv w msgBuf rpre @ [?f r]). dc_content c = msgBuf"
      using dueCalls_content [of srv w msgBuf rpre] by (simp add: deliverCall_def)
    ultimately show ?thesis
      by blast
  qed
qed

subsection \<open>The loop of the session ends\<close>

text \<open>
  Every pass of the loop that does not leave it takes at least one byte from the
  connection or ends in \<open>QUIT\<close>, so the loop of \<^verbatim>\<open>startSession\<close> is a total function.
\<close>

lemma parseCmd_incoming: "incoming (snd (parseCmd srv w line)) = incoming w"
  by (simp add: parseCmd_def Let_def)

lemma greetHandler_incoming: "incoming (greetHandler srv w cmd arg) = incoming w"
  by (simp add: greetHandler_def ooSeq_def split: option.split)

lemma readyHandler_incoming: "incoming (readyHandler srv w cmd arg) = incoming w"
  by (simp add: readyHandler_def ooSeq_def acceptMail_def parseArgs_def Let_def
      split: option.split sum.split prod.split)

lemma mailHandler_incoming: "incoming (mailHandler srv w cmd arg) = incoming w"
  by (simp add: mailHandler_def ooSeq_def Let_def split: option.split)

lemma deliverAll_incoming: "incoming (snd (deliverAll srv tstamp content rs w)) = incoming w"
  by (induction rs arbitrary: w) (simp_all add: Let_def split: sum.split)

lemma mailComplete_incoming: "incoming (mailComplete srv msgBuf w) = incoming w"
proof -
  let ?w1 = "w\<lparr>ticks := ticks w + 1\<rparr>"
  have "incoming (snd (deliverAll srv (clock w (ticks w)) msgBuf (recipients ?w1) ?w1)) = incoming w"
    by (simp add: deliverAll_incoming)
  then show ?thesis
    by (cases "deliverAll srv (clock w (ticks w)) msgBuf (recipients ?w1) ?w1")
       (auto simp: mailComplete_def Let_def split: bool.split)
qed

lemma dataLoop_progress:
  "state (dataLoop srv msgBuf w) = QUIT \<or> length (incoming (dataLoop srv msgBuf w)) < length (incoming w)"
proof (induction srv msgBuf w rule: dataLoop.induct)
  case (1 srv msgBuf w)
  show ?case
  proof (cases "readByteLine w")
    case (Pair r w1)
    show ?thesis
    proof (cases r)
      case (Inl err)
      with Pair have "state (dataLoop srv msgBuf w) = QUIT"
        by (simp add: dataLoop_error)
      then show ?thesis ..
    next
      case (Inr l)
      with Pair have r: "readByteLine w = (Inr l, w1)"
        by simp
      then have less: "length (incoming w1) < length (incoming w)"
        by (simp add: readByteLine_def ReadBytes_shorter)
      show ?thesis
      proof (cases "l = ''.'' @ CRLF \<or> l = ''.'' @ [LF]")
        case True
        with r less show ?thesis
          by (simp add: dataLoop_terminator mailComplete_incoming)
      next
        case False
        show ?thesis
        proof (cases "int (length (msgBuf @ unstuff l)) > maxMessageBytes srv")
          case True
          with r False less show ?thesis
            by (simp add: dataLoop_line)
        next
          case big: False
          have step: "dataLoop srv msgBuf w = dataLoop srv (msgBuf @ unstuff l) w1"
            using dataLoop_line [OF r] False big by simp
          from "1.IH" [OF r [symmetric] refl] False big
          have "state (dataLoop srv (msgBuf @ unstuff l) w1) = QUIT \<or>
              length (incoming (dataLoop srv (msgBuf @ unstuff l) w1)) < length (incoming w1)"
            by simp
          with less show ?thesis
            unfolding step by auto
        qed
      qed
    qed
  qed
qed

text \<open>The bytes left to read, plus one while the loop condition holds.\<close>

definition loopMeasure :: "World \<Rightarrow> nat" where
  "loopMeasure w = (if state w = QUIT \<or> sendError w \<noteq> None then 0 else Suc (length (incoming w)))"

lemma iteration_progress:
  assumes "iteration srv w = (Continue, w')"
  shows "state w' = QUIT \<or> length (incoming w') < length (incoming w)"
proof (cases "state w = DATA")
  case True
  with assms have "w' = dataLoop srv [] (send w ''354 Start mail input; end with <CRLF>.<CRLF>'')"
    by (simp add: iteration_def dataHandler_def)
  then show ?thesis
    using dataLoop_progress [of srv "[]" "send w ''354 Start mail input; end with <CRLF>.<CRLF>''"]
    by simp
next
  case False
  obtain r w1 where rl: "readLine w = (r, w1)"
    by (cases "readLine w")
  show ?thesis
  proof (cases r)
    case (Inl err)
    with assms False rl show ?thesis
      by (auto simp: iteration_def split: if_splits)
  next
    case (Inr line)
    with rl have less: "length (incoming w1) < length (incoming w)"
      by (simp add: readLine_def ReadBytes_shorter)
    obtain cmd arg ok w2 where pc: "parseCmd srv w1 line = ((cmd, arg, ok), w2)"
      by (cases "parseCmd srv w1 line") auto
    have i2: "incoming w2 = incoming w1"
      using parseCmd_incoming [of srv w1 line] pc by simp
    have "incoming w' = incoming w2"
      using assms False rl Inr pc
      by (cases ok; cases "state w2")
         (auto simp: iteration_def greetHandler_incoming readyHandler_incoming mailHandler_incoming
           split: if_splits)
    with i2 less show ?thesis
      by simp
  qed
qed

lemma iteration_decreases:
  assumes "state w \<noteq> QUIT" and "sendError w = None" and "iteration srv w = (Continue, w')"
  shows "loopMeasure w' < loopMeasure w"
  using iteration_progress [OF assms(3)] assms(1,2) by (auto simp: loopMeasure_def)

text \<open>The \<^verbatim>\<open>for\<close> loop of \<^verbatim>\<open>startSession\<close>.\<close>

function sessionLoop :: "Server \<Rightarrow> World \<Rightarrow> World" where
  "sessionLoop srv w =
     (if state w \<noteq> QUIT \<and> sendError w = None
      then (case iteration srv w of
              (Continue, w') \<Rightarrow> sessionLoop srv w'
            | (Break, w') \<Rightarrow> w')
      else w)"
  by pat_completeness auto
termination
  by (relation "measure (\<lambda>(srv, w). loopMeasure w)")
     (auto dest: iteration_decreases [OF _ _ sym])

declare sessionLoop.simps [simp del]

text \<open>
  \<^verbatim>\<open>startSession\<close> on a connection given as the world \<open>env\<close>: the session is created
  and greets, the loop runs, and a send error left behind is logged. The accounting of
  live connections around it (\<^verbatim>\<open>expConnectsCurrent\<close>, the wait group, closing the
  connection) is not part of the model.
\<close>

definition startSession :: "Server \<Rightarrow> World \<Rightarrow> int \<Rightarrow> string \<Rightarrow> World" where
  "startSession srv env i host =
     (let ss = sessionLoop srv (greet srv (NewSession env i host))
      in if sendError ss \<noteq> None then logWarn ss else ss)"

subsection \<open>The invariant of the envelope\<close>

lemma envelopeInv_same:
  "envelopeInv w \<Longrightarrow> state w' = state w \<Longrightarrow> from_addr w' = from_addr w \<Longrightarrow>
   recipients w' = recipients w \<Longrightarrow> envelopeInv w'"
  by (simp add: envelopeInv_def)

lemma envelopeInv_other:
  "state w \<noteq> DATA \<Longrightarrow> state w \<noteq> MAIL \<Longrightarrow> envelopeInv w"
  by (simp add: envelopeInv_def)

lemma quotedAddr_nonempty: "quotedAddr s \<Longrightarrow> s \<noteq> []"
  by (auto simp: quotedAddr_def)

lemma matchMailFrom_nonempty:
  assumes "matchMailFrom arg = Some (frm, params)"
  shows "frm \<noteq> []"
proof -
  from assms obtain s where "find (\<lambda>(g1, g2). group1 g1 \<and> group2 g2) (splitsAtGt [] s) = Some (frm, params)"
    by (auto simp: matchMailFrom_def split: if_splits list.splits)
  then have "group1 frm"
    by (auto simp: find_Some_iff)
  then show ?thesis
    by (auto simp: group1_def dest: quotedAddr_nonempty)
qed

lemma ooSeq_simps [simp]:
  "state (ooSeq w cmd) = state w" "from_addr (ooSeq w cmd) = from_addr w"
  "recipients (ooSeq w cmd) = recipients w"
  by (simp_all add: ooSeq_def)

lemma greetHandler_state:
  "state (greetHandler srv w cmd arg) = state w \<or> state (greetHandler srv w cmd arg) = READY"
  by (simp add: greetHandler_def split: option.split)

lemma readyHandler_inv:
  assumes "state w = READY"
  shows "envelopeInv (readyHandler srv w cmd arg)"
proof (cases "state (readyHandler srv w cmd arg) = READY")
  case True
  then show ?thesis by (simp add: envelopeInv_other)
next
  case False
  then obtain frm params w1 where m: "matchMailFrom arg = Some (frm, params)"
    and r: "readyHandler srv w cmd arg = acceptMail w1 frm"
    using assms
    by (auto simp: readyHandler_def parseArgs_def Let_def
        split: if_splits option.splits sum.splits prod.splits)
  from matchMailFrom_nonempty [OF m] show ?thesis
    by (simp add: r envelopeInv_def)
qed

lemma mailHandler_inv:
  assumes "envelopeInv w" and "state w = MAIL"
  shows "envelopeInv (mailHandler srv w cmd arg)"
  using assms
  by (auto simp: mailHandler_def envelopeInv_def Let_def split: option.splits)

lemma deliverAll_failed:
  "deliverAll srv tstamp content rs w = (False, w') \<Longrightarrow> state w' = READY"
proof (induction rs arbitrary: w)
  case Nil
  then show ?case by simp
next
  case (Cons r rs)
  then show ?case
    by (auto simp: Let_def split: if_splits sum.splits)
qed

lemma mailComplete_state: "state (mailComplete srv msgBuf w) = READY"
proof (cases "deliverAll srv (clock w (ticks w)) msgBuf (recipients w) (w\<lparr>ticks := ticks w + 1\<rparr>)")
  case (Pair ok w2)
  then show ?thesis
    by (cases ok) (auto simp: mailComplete_def Let_def dest: deliverAll_failed)
qed

lemma dataLoop_state:
  "state (dataLoop srv msgBuf w) \<in> {READY, QUIT}"
proof (induction srv msgBuf w rule: dataLoop.induct)
  case (1 srv msgBuf w)
  show ?case
  proof (cases "readByteLine w")
    case (Pair r w1)
    show ?thesis
    proof (cases r)
      case (Inl err)
      with Pair show ?thesis
        by (subst dataLoop.simps) simp
    next
      case (Inr lineBuf)
      with Pair "1.IH" show ?thesis
        by (subst dataLoop.simps) (simp add: mailComplete_state)
    qed
  qed
qed

lemma iteration_inv:
  assumes "envelopeInv w" and "iteration srv w = (c, w')"
  shows "envelopeInv w'"
proof (cases "state w = DATA")
  case True
  with assms(2) have "w' = dataHandler srv w"
    by (simp add: iteration_def)
  then have "state w' \<in> {READY, QUIT}"
    using dataLoop_state by (simp add: dataHandler_def)
  then show ?thesis
    by (auto simp: envelopeInv_def)
next
  case False
  obtain r w1 where rl: "readLine w = (r, w1)"
    by (cases "readLine w")
  note f1 = readLine_fields [OF rl]
  have i1: "envelopeInv w1"
    using assms(1) f1 by (auto intro: envelopeInv_same)
  show ?thesis
  proof (cases r)
    case (Inl err)
    with assms(2) False rl have "state w' = state w1 \<and> from_addr w' = from_addr w1 \<and> recipients w' = recipients w1"
      by (auto simp: iteration_def split: if_splits)
    with i1 show ?thesis
      by (auto intro: envelopeInv_same)
  next
    case (Inr line)
    obtain cmd arg ok w2 where pc: "parseCmd srv w1 line = ((cmd, arg, ok), w2)"
      by (cases "parseCmd srv w1 line") auto
    note f2 = parseCmd_fields [OF pc]
    have i2: "envelopeInv w2"
      using i1 f2 by (auto intro: envelopeInv_same)
    have st2: "state w2 \<noteq> DATA"
      using False f1 f2 by simp
    show ?thesis
    proof (cases ok)
      case False
      with assms(2) \<open>state w \<noteq> DATA\<close> rl Inr pc have "w' = send w2 ''500 Syntax error, command garbled''"
        by (simp add: iteration_def)
      with i2 show ?thesis
        by (auto intro: envelopeInv_same)
    next
      case True
      consider (same) "state w' = state w2" "from_addr w' = from_addr w2" "recipients w' = recipients w2"
        | (leave) "state w' = READY \<or> state w' = QUIT"
        | (greet) "state w2 = GREET" "w' = greetHandler srv w2 cmd arg"
        | (ready) "state w2 = READY" "w' = readyHandler srv w2 cmd arg"
        | (mail) "state w2 = MAIL" "w' = mailHandler srv w2 cmd arg"
        using assms(2) \<open>state w \<noteq> DATA\<close> rl Inr pc True st2
        by (cases "state w2") (auto simp: iteration_def split: if_splits)
      then show ?thesis
      proof cases
        case same
        with i2 show ?thesis by (auto intro: envelopeInv_same)
      next
        case leave
        then show ?thesis by (auto simp: envelopeInv_def)
      next
        case greet
        then show ?thesis
          using greetHandler_state [of srv w2 cmd arg] by (auto simp: envelopeInv_def)
      next
        case ready
        then show ?thesis by (simp add: readyHandler_inv)
      next
        case mail
        with i2 show ?thesis by (simp add: mailHandler_inv)
      qed
    qed
  qed
qed

lemma reachable_inv: "reachable srv w \<Longrightarrow> envelopeInv w"
proof (induction rule: reachable.induct)
  case (start env i host)
  show ?case
    by (rule envelopeInv_other) (simp_all add: greet_def NewSession_def)
next
  case (pass w w')
  then show ?case
    by (auto intro: iteration_inv)
qed

lemma reachable_passes:
  "reachable srv w \<Longrightarrow> passes n srv w = Some w' \<Longrightarrow> reachable srv w'"
proof (induction n arbitrary: w)
  case 0
  then show ?case by simp
next
  case (Suc n)
  from Suc.prems(2) obtain w1 where ok: "state w \<noteq> QUIT" "sendError w = None"
    and it: "iteration srv w = (Continue, w1)" and rest: "passes n srv w1 = Some w'"
    by (auto split: if_splits prod.splits loop_ctl.splits)
  from Suc.prems(1) ok it have "reachable srv w1"
    by (rule reachable.pass)
  then show ?case
    using rest by (rule Suc.IH)
qed

lemma demo_passes:
  "passes (Suc (Suc (Suc (Suc 0)))) demoServer (greet demoServer (NewSession (demoWorld demoInput) 1 ''192.0.2.1''))
     = Some (demoData [])"
  by (simp add: demoInput_def demoData_def demoMail_def demoWorld_def demoServer_def demoRecipient_def
      greet_def NewSession_def send_def iteration_def readLine_def ReadBytes_def parseCmd_def
      commands_def greetHandler_def readyHandler_def mailHandler_def parseHelloArgument_def
      acceptMail_def enterState_def re_defs str_defs Let_def)

lemma sessionLoop_inv: "envelopeInv w \<Longrightarrow> envelopeInv (sessionLoop srv w)"
proof (induction srv w rule: sessionLoop.induct)
  case (1 srv w)
  show ?case
  proof (cases "state w \<noteq> QUIT \<and> sendError w = None")
    case False
    with "1.prems" show ?thesis
      by (subst sessionLoop.simps) auto
  next
    case True
    obtain c w' where it: "iteration srv w = (c, w')"
      by (cases "iteration srv w")
    have inv: "envelopeInv w'"
      using "1.prems" it by (rule iteration_inv)
    show ?thesis
    proof (cases c)
      case Continue
      have "envelopeInv (sessionLoop srv w')"
        using True it [symmetric] Continue inv by (rule "1.IH")
      with it Continue True show ?thesis
        by (subst sessionLoop.simps) simp
    next
      case Break
      with it inv True show ?thesis
        by (subst sessionLoop.simps) simp
    qed
  qed
qed

lemma startSession_inv: "envelopeInv (startSession srv env i host)"
proof -
  have "envelopeInv (greet srv (NewSession env i host))"
    using reachable.start by (rule reachable_inv)
  then have "envelopeInv (sessionLoop srv (greet srv (NewSession env i host)))"
    by (rule sessionLoop_inv)
  then show ?thesis
    by (auto simp: startSession_def Let_def intro: envelopeInv_same)
qed

subsection \<open>Facts about the concrete sessions\<close>

lemmas demo_defs = demoData_def demoMail_def demoWorld_def demoRecipient_def demoUnstored_def demoFull_def

lemma demoServer_simps:
  "maxMessageBytes demoServer = 20" "maxRecips demoServer = 3" "domain demoServer = ''mail.test''"
  "Deliver demoServer h c = (if LocalPart (dc_to c) = ''full'' then Inl DeliverError else Inr ''id'')"
  by (simp_all add: demoServer_def)

lemma readByteLine_demoThree:
  "readByteLine (demoThree (''.'' @ CRLF)) = (Inr (''.'' @ CRLF), demoThree [])"
  using readByteLine_line [OF byteLine_terminators(1), of "demoThree (''.'' @ CRLF)" "[]"]
  by (simp add: demoThree_def demo_defs)

lemma readByteLine_demoRefused:
  "readByteLine (demoRefused (''.'' @ CRLF)) = (Inr (''.'' @ CRLF), demoRefused [])"
  using readByteLine_line [OF byteLine_terminators(1), of "demoRefused (''.'' @ CRLF)" "[]"]
  by (simp add: demoRefused_def demo_defs)

lemmas utf8_defs = DecodeRuneInString_def EncodeRune_def encode3_def RuneError_def seqLen_def
  inRange_def acceptLo_def acceptHi_def unicode_ToUpper_def demoCaseTable_def char_of_def bit_0

lemma demoServer_table: "unicodeUpper demoServer = demoCaseTable"
  by (simp add: demoServer_def)

lemma writesOk_demo:
  "writesOk n (demoData inp)" "writesOk n (demoMail inp)" "writesOk n (demoReady inp)"
  by (simp_all add: writesOk_def demoData_def demoMail_def demoReady_def demoWorld_def)

lemmas line_defs = byteLine_def CRLF_def CR_def LF_def unstuff_def stuffLine_def

section \<open>Properties\<close>

subsection \<open>The envelope is complete in the data phase\<close>

text \<open>
  C1. In every session state that the command loop reaches from the greeting, whatever
  the client sends, \<open>state = DATA\<close> implies that there is at least one recipient and
  that the sender is not empty. These states include every entry into the data phase,
  which \<^verbatim>\<open>dataHandler\<close> takes up from the head of the loop.
\<close>

theorem data_state_has_envelope:
  "reachable srv w \<Longrightarrow> state w = DATA \<Longrightarrow> 1 \<le> length (recipients w) \<and> from_addr w \<noteq> []"
  using reachable_inv [of srv w] by (cases "recipients w") (auto simp: envelopeInv_def)

theorem data_state_has_envelope_witness:
  "reachable demoServer (demoData []) \<and> state (demoData []) = DATA \<and>
   1 \<le> length (recipients (demoData [])) \<and> from_addr (demoData []) \<noteq> []"
proof -
  have r: "reachable demoServer (demoData [])"
    using reachable.start [of demoServer "demoWorld demoInput" 1 "''192.0.2.1''"] demo_passes
    by (rule reachable_passes)
  have s: "state (demoData []) = DATA"
    by (simp add: demoData_def)
  show ?thesis
    using data_state_has_envelope [OF r s] r s by simp
qed

subsection \<open>The cases of the command parser\<close>

text \<open>
  C2. With \<open>line\<close> the input line without its trailing carriage returns and line feeds:
  an empty line gives two empty strings and ok; a line of 1 to 3 bytes is not ok; a line
  of 4 bytes is the verb, upper-cased by \<^verbatim>\<open>strings.ToUpper\<close>, with an empty argument; a
  line of 5 bytes is not ok; a longer line is not ok unless its byte 4 is a space, and
  then the verb is the first four bytes upper-cased and the argument the rest, trimmed of
  spaces on both sides.
\<close>

theorem parseCmd_cases:
  "(let line = TrimRight line0 CRLF; res = fst (parseCmd srv w line0) in
     (length line = 0 \<longrightarrow> res = ([], [], True)) \<and>
     (1 \<le> length line \<and> length line \<le> 3 \<longrightarrow> res = ([], [], False)) \<and>
     (length line = 4 \<longrightarrow> res = (ToUpper (unicodeUpper srv) line, [], True)) \<and>
     (length line = 5 \<longrightarrow> res = ([], [], False)) \<and>
     (6 \<le> length line \<and> line ! 4 \<noteq> CHR '' '' \<longrightarrow> res = ([], [], False)) \<and>
     (6 \<le> length line \<and> line ! 4 = CHR '' '' \<longrightarrow>
        res = (ToUpper (unicodeUpper srv) (take 4 line), Trim (drop 5 line) '' '', True)))"
  by (simp add: parseCmd_def Let_def)

theorem parseCmd_cases_witness:
  "fst (parseCmd demoServer (demoWorld []) CRLF) = ([], [], True) \<and>
   fst (parseCmd demoServer (demoWorld []) (''he'' @ CRLF)) = ([], [], False) \<and>
   fst (parseCmd demoServer (demoWorld []) (''helo'' @ CRLF)) = (''HELO'', [], True) \<and>
   fst (parseCmd demoServer (demoWorld []) (''helo '' @ CRLF)) = ([], [], False) \<and>
   fst (parseCmd demoServer (demoWorld []) (''DATAx1'' @ CRLF)) = ([], [], False) \<and>
   fst (parseCmd demoServer (demoWorld []) (''mail  FROM:<a@b>  '' @ CRLF)) = (''MAIL'', ''FROM:<a@b>'', True) \<and>
   fst (parseCmd demoServer (demoWorld []) ([CHR ''a'', CHR ''b'', CHR 0xFF, CHR 0xFE] @ CRLF)) =
     ([CHR ''A'', CHR ''B'', CHR 0xEF, CHR 0xBF, CHR 0xBD, CHR 0xEF, CHR 0xBF, CHR 0xBD], [], True) \<and>
   fst (parseCmd demoServer (demoWorld []) ([CHR 0xC5, CHR 0xBF, CHR ''e'', CHR ''t''] @ CRLF)) =
     (''SET'', [], True) \<and>
   fst (parseCmd demoServer (demoWorld []) ([CHR 0xC3, CHR 0xA9, CHR ''a'', CHR ''b''] @ CRLF)) =
     ([CHR 0xC3, CHR 0x89, CHR ''A'', CHR ''B''], [], True)"
  using parseCmd_cases [where ?line0.0 = "CRLF" and srv = demoServer and w = "demoWorld []"]
    parseCmd_cases [where ?line0.0 = "''he'' @ CRLF" and srv = demoServer and w = "demoWorld []"]
    parseCmd_cases [where ?line0.0 = "''helo'' @ CRLF" and srv = demoServer and w = "demoWorld []"]
    parseCmd_cases [where ?line0.0 = "''helo '' @ CRLF" and srv = demoServer and w = "demoWorld []"]
    parseCmd_cases [where ?line0.0 = "''DATAx1'' @ CRLF" and srv = demoServer and w = "demoWorld []"]
    parseCmd_cases [where ?line0.0 = "''mail  FROM:<a@b>  '' @ CRLF" and srv = demoServer and w = "demoWorld []"]
    parseCmd_cases [where ?line0.0 = "[CHR ''a'', CHR ''b'', CHR 0xFF, CHR 0xFE] @ CRLF" and srv = demoServer
      and w = "demoWorld []"]
    parseCmd_cases [where ?line0.0 = "[CHR 0xC5, CHR 0xBF, CHR ''e'', CHR ''t''] @ CRLF" and srv = demoServer
      and w = "demoWorld []"]
    parseCmd_cases [where ?line0.0 = "[CHR 0xC3, CHR 0xA9, CHR ''a'', CHR ''b''] @ CRLF" and srv = demoServer
      and w = "demoWorld []"]
  by (simp add: Let_def str_defs utf8_defs demoServer_table)

subsection \<open>The size limit of the data phase\<close>

text \<open>
  C3. Let the client send the byte-lines \<open>ls\<close>, none of them a terminator, and let the
  body be what they leave in the buffer. A body of at most \<open>maxMessageBytes\<close> bytes, so
  one of exactly that size, followed by the terminator is accepted: it is handed on for
  delivery, and when the manager takes the deliveries the log of \<^verbatim>\<open>Deliver\<close> calls grows
  by the calls due for that body, the session is in \<open>READY\<close>, and a connection that takes
  the writes has received \<^verbatim>\<open>354\<close> and \<^verbatim>\<open>250 Mail accepted for delivery\<close>. As soon as
  the buffer holds more than \<open>maxMessageBytes\<close> bytes after a line, the session resets
  and is in \<open>READY\<close> with no sender, no recipient and no delivery made, and the connection
  has received \<^verbatim>\<open>354\<close> and \<^verbatim>\<open>552 Maximum message size exceeded\<close>.
\<close>

theorem data_size_limit:
  assumes "\<forall>l\<in>set ls. byteLine l \<and> l \<noteq> ''.'' @ CRLF \<and> l \<noteq> ''.'' @ [LF]"
  shows "(int (length (concat (map unstuff ls))) \<le> maxMessageBytes srv \<longrightarrow>
            dataHandler srv (w\<lparr>incoming := concat ls @ ''.'' @ CRLF @ rest\<rparr>) =
              mailComplete srv (concat (map unstuff ls))
                ((send w ''354 Start mail input; end with <CRLF>.<CRLF>'')\<lparr>incoming := rest\<rparr>) \<and>
            (deliveriesOk srv (delivered w) (dueCalls srv w (concat (map unstuff ls)) (recipients w)) \<longrightarrow>
               delivered (dataHandler srv (w\<lparr>incoming := concat ls @ ''.'' @ CRLF @ rest\<rparr>)) =
                 delivered w @ dueCalls srv w (concat (map unstuff ls)) (recipients w) \<and>
               state (dataHandler srv (w\<lparr>incoming := concat ls @ ''.'' @ CRLF @ rest\<rparr>)) = READY \<and>
               (writesOk 2 w \<longrightarrow>
                  outgoing (dataHandler srv (w\<lparr>incoming := concat ls @ ''.'' @ CRLF @ rest\<rparr>)) =
                    outgoing w @ [''354 Start mail input; end with <CRLF>.<CRLF>'' @ CRLF,
                                  ''250 Mail accepted for delivery'' @ CRLF]))) \<and>
         (ls \<noteq> [] \<and> maxMessageBytes srv < int (length (concat (map unstuff ls))) \<longrightarrow>
            (\<exists>n. dataHandler srv (w\<lparr>incoming := concat ls @ rest\<rparr>) =
               reset (logWarn (send
                 ((send w ''354 Start mail input; end with <CRLF>.<CRLF>'')\<lparr>incoming := drop n (concat ls @ rest)\<rparr>)
                 ''552 Maximum message size exceeded''))) \<and>
            state (dataHandler srv (w\<lparr>incoming := concat ls @ rest\<rparr>)) = READY \<and>
            from_addr (dataHandler srv (w\<lparr>incoming := concat ls @ rest\<rparr>)) = [] \<and>
            recipients (dataHandler srv (w\<lparr>incoming := concat ls @ rest\<rparr>)) = [] \<and>
            delivered (dataHandler srv (w\<lparr>incoming := concat ls @ rest\<rparr>)) = delivered w \<and>
            (writesOk 2 w \<longrightarrow>
               outgoing (dataHandler srv (w\<lparr>incoming := concat ls @ rest\<rparr>)) =
                 outgoing w @ [''354 Start mail input; end with <CRLF>.<CRLF>'' @ CRLF,
                               ''552 Maximum message size exceeded'' @ CRLF]))"
proof (intro conjI impI)
  let ?s = "send w ''354 Start mail input; end with <CRLF>.<CRLF>''"
  let ?body = "concat (map unstuff ls)"
  let ?W = "?s\<lparr>incoming := rest\<rparr>"
  let ?in = "w\<lparr>incoming := concat ls @ ''.'' @ CRLF @ rest\<rparr>"
  assume fits: "int (length ?body) \<le> maxMessageBytes srv"
  then show eq: "dataHandler srv ?in = mailComplete srv ?body ?W"
    using dataHandler_lines [where ls = ls and srv = srv and t = "''.'' @ CRLF" and w = w and rest = rest]
      assms by simp
  have due: "dueCalls srv ?W = dueCalls srv w"
    by (rule dueCalls_cong) (simp_all add: send_env)
  assume ok: "deliveriesOk srv (delivered w) (dueCalls srv w ?body (recipients w))"
  then have "deliveriesOk srv (delivered ?W) (dueCalls srv ?W ?body (recipients ?W))"
    by (simp add: due)
  from mailComplete_ok [OF this]
  have mc: "mailComplete srv ?body ?W =
      reset (send (?W\<lparr>ticks := ticks ?W + 1,
                     delivered := delivered w @ dueCalls srv w ?body (recipients w),
                     expReceivedTotal := expReceivedTotal ?W + int (length (recipients w))\<rparr>)
              ''250 Mail accepted for delivery'')"
    by (simp add: due)
  show "delivered (dataHandler srv ?in) = delivered w @ dueCalls srv w ?body (recipients w)"
    unfolding eq mc by simp
  show "state (dataHandler srv ?in) = READY"
    unfolding eq mc by simp
  assume "writesOk 2 w"
  then have w2: "writesOk (Suc (Suc 0)) w"
    by (simp add: numeral_2_eq_2)
  note s1 = send_ok(1,2) [OF w2, of "''354 Start mail input; end with <CRLF>.<CRLF>''"]
  let ?X = "?W\<lparr>ticks := ticks ?W + 1,
                delivered := delivered w @ dueCalls srv w ?body (recipients w),
                expReceivedTotal := expReceivedTotal ?W + int (length (recipients w))\<rparr>"
  have "writesOk (Suc 0) ?X"
    using s1(2) by simp
  from send_ok(1) [OF this, of "''250 Mail accepted for delivery''"] s1(1)
  show "outgoing (dataHandler srv ?in) =
      outgoing w @ [''354 Start mail input; end with <CRLF>.<CRLF>'' @ CRLF,
                    ''250 Mail accepted for delivery'' @ CRLF]"
    unfolding eq mc by simp
next
  let ?s = "send w ''354 Start mail input; end with <CRLF>.<CRLF>''"
  let ?in = "w\<lparr>incoming := concat ls @ rest\<rparr>"
  assume big: "ls \<noteq> [] \<and> maxMessageBytes srv < int (length (concat (map unstuff ls)))"
  then have "\<exists>n. dataLoop srv [] (?s\<lparr>incoming := concat ls @ rest\<rparr>) =
      reset (logWarn (send (?s\<lparr>incoming := drop n (concat ls @ rest)\<rparr>)
        ''552 Maximum message size exceeded''))"
    using assms by (intro dataLoop_overflow) simp_all
  then obtain n where n: "dataHandler srv ?in =
      reset (logWarn (send (?s\<lparr>incoming := drop n (concat ls @ rest)\<rparr>)
        ''552 Maximum message size exceeded''))"
    by (auto simp: dataHandler_def send_incoming)
  then show "\<exists>n. dataHandler srv ?in =
      reset (logWarn (send (?s\<lparr>incoming := drop n (concat ls @ rest)\<rparr>)
        ''552 Maximum message size exceeded''))"
    by blast
  from n show "state (dataHandler srv ?in) = READY" "from_addr (dataHandler srv ?in) = []"
    "recipients (dataHandler srv ?in) = []" "delivered (dataHandler srv ?in) = delivered w"
    by simp_all
  assume "writesOk 2 w"
  then have w2: "writesOk (Suc (Suc 0)) w"
    by (simp add: numeral_2_eq_2)
  note s1 = send_ok(1,2) [OF w2, of "''354 Start mail input; end with <CRLF>.<CRLF>''"]
  have "writesOk (Suc 0) (?s\<lparr>incoming := drop n (concat ls @ rest)\<rparr>)"
    using s1(2) by simp
  from send_ok(1) [OF this, of "''552 Maximum message size exceeded''"] s1(1)
  show "outgoing (dataHandler srv ?in) =
      outgoing w @ [''354 Start mail input; end with <CRLF>.<CRLF>'' @ CRLF,
                    ''552 Maximum message size exceeded'' @ CRLF]"
    unfolding n by simp
qed

theorem data_size_limit_witness:
  "int (length (''0123456789'' @ CRLF @ ''.abcde'' @ CRLF)) = maxMessageBytes demoServer \<and>
   map dc_content (delivered (dataHandler demoServer ((demoData [])\<lparr>incoming :=
       ''0123456789'' @ CRLF @ ''..abcde'' @ CRLF @ ''.'' @ CRLF\<rparr>))) =
     [''0123456789'' @ CRLF @ ''.abcde'' @ CRLF] \<and>
   map dc_to (delivered (dataHandler demoServer ((demoData [])\<lparr>incoming :=
       ''0123456789'' @ CRLF @ ''..abcde'' @ CRLF @ ''.'' @ CRLF\<rparr>))) = [demoRecipient] \<and>
   outgoing (dataHandler demoServer ((demoData [])\<lparr>incoming :=
       ''0123456789'' @ CRLF @ ''..abcde'' @ CRLF @ ''.'' @ CRLF\<rparr>)) =
     outgoing (demoData []) @ [''354 Start mail input; end with <CRLF>.<CRLF>'' @ CRLF,
                               ''250 Mail accepted for delivery'' @ CRLF] \<and>
   state (dataHandler demoServer ((demoData [])\<lparr>incoming :=
       ''0123456789'' @ CRLF @ ''..abcde'' @ CRLF @ ''.'' @ CRLF\<rparr>)) = READY \<and>
   outgoing (dataHandler demoServer ((demoData [])\<lparr>incoming :=
       ''0123456789'' @ CRLF @ ''..abcde'' @ CRLF @ ''x'' @ CRLF @ ''.'' @ CRLF\<rparr>)) =
     outgoing (demoData []) @ [''354 Start mail input; end with <CRLF>.<CRLF>'' @ CRLF,
                               ''552 Maximum message size exceeded'' @ CRLF] \<and>
   delivered (dataHandler demoServer ((demoData [])\<lparr>incoming :=
       ''0123456789'' @ CRLF @ ''..abcde'' @ CRLF @ ''x'' @ CRLF @ ''.'' @ CRLF\<rparr>)) = [] \<and>
   state (dataHandler demoServer ((demoData [])\<lparr>incoming :=
       ''0123456789'' @ CRLF @ ''..abcde'' @ CRLF @ ''x'' @ CRLF @ ''.'' @ CRLF\<rparr>)) = READY \<and>
   recipients (dataHandler demoServer ((demoData [])\<lparr>incoming :=
       ''0123456789'' @ CRLF @ ''..abcde'' @ CRLF @ ''x'' @ CRLF @ ''.'' @ CRLF\<rparr>)) = []"
proof -
  let ?ls = "[''0123456789'' @ CRLF, ''..abcde'' @ CRLF]"
  let ?ms = "[''0123456789'' @ CRLF, ''..abcde'' @ CRLF, ''x'' @ CRLF]"
  let ?in = "(demoData [])\<lparr>incoming := ''0123456789'' @ CRLF @ ''..abcde'' @ CRLF @ ''.'' @ CRLF\<rparr>"
  let ?over = "(demoData [])\<lparr>incoming :=
      ''0123456789'' @ CRLF @ ''..abcde'' @ CRLF @ ''x'' @ CRLF @ ''.'' @ CRLF\<rparr>"
  have l: "\<forall>l\<in>set ?ls. byteLine l \<and> l \<noteq> ''.'' @ CRLF \<and> l \<noteq> ''.'' @ [LF]"
    and m: "\<forall>l\<in>set ?ms. byteLine l \<and> l \<noteq> ''.'' @ CRLF \<and> l \<noteq> ''.'' @ [LF]"
    by (simp_all add: line_defs)
  have fits: "int (length (concat (map unstuff ?ls))) \<le> maxMessageBytes demoServer"
    and big: "?ms \<noteq> [] \<and> maxMessageBytes demoServer < int (length (concat (map unstuff ?ms)))"
    by (simp_all add: line_defs demoServer_simps)
  have ok: "deliveriesOk demoServer (delivered (demoData []))
      (dueCalls demoServer (demoData []) (concat (map unstuff ?ls)) (recipients (demoData [])))"
    by (simp add: dueCalls_def deliverCall_def demo_defs demoServer_simps)
  have wr: "writesOk 2 (demoData [])"
    by (rule writesOk_demo)
  have i1: "(demoData [])\<lparr>incoming := concat ?ls @ ''.'' @ CRLF @ []\<rparr> = ?in"
    and i2: "(demoData [])\<lparr>incoming := concat ?ms @ ''.'' @ CRLF\<rparr> = ?over"
    by simp_all
  note A = data_size_limit [where ls = ?ls and srv = demoServer and w = "demoData []" and rest = "[]",
      OF l, THEN conjunct1, rule_format, OF fits, THEN conjunct2, rule_format, OF ok, unfolded i1]
  note B = data_size_limit [where ls = ?ms and srv = demoServer and w = "demoData []"
      and rest = "''.'' @ CRLF", OF m, THEN conjunct2, rule_format, OF big, THEN conjunct2, unfolded i2]
  have g0: "int (length (''0123456789'' @ CRLF @ ''.abcde'' @ CRLF)) = maxMessageBytes demoServer"
    by (simp add: CRLF_def demoServer_simps)
  have del: "delivered (dataHandler demoServer ?in) =
      [deliverCall demoServer (demoData []) (clock (demoData []) (ticks (demoData [])))
         (concat (map unstuff ?ls)) demoRecipient]"
    using A [THEN conjunct1] by (simp add: dueCalls_def demo_defs)
  have g1: "map dc_content (delivered (dataHandler demoServer ?in)) =
      [''0123456789'' @ CRLF @ ''.abcde'' @ CRLF]"
    unfolding del by (simp add: deliverCall_def line_defs)
  have g2: "map dc_to (delivered (dataHandler demoServer ?in)) = [demoRecipient]"
    unfolding del by (simp add: deliverCall_def)
  have g3: "outgoing (dataHandler demoServer ?in) =
      outgoing (demoData []) @ [''354 Start mail input; end with <CRLF>.<CRLF>'' @ CRLF,
                                ''250 Mail accepted for delivery'' @ CRLF]"
    using A [THEN conjunct2, THEN conjunct2, rule_format, OF wr] .
  have g4: "state (dataHandler demoServer ?in) = READY"
    using A [THEN conjunct2, THEN conjunct1] .
  have g5: "outgoing (dataHandler demoServer ?over) =
      outgoing (demoData []) @ [''354 Start mail input; end with <CRLF>.<CRLF>'' @ CRLF,
                                ''552 Maximum message size exceeded'' @ CRLF]"
    using B [THEN conjunct2, THEN conjunct2, THEN conjunct2, THEN conjunct2, rule_format, OF wr] .
  have g6: "delivered (dataHandler demoServer ?over) = []"
    using B [THEN conjunct2, THEN conjunct2, THEN conjunct2, THEN conjunct1]
    by (simp add: demo_defs)
  have g7: "state (dataHandler demoServer ?over) = READY"
    using B [THEN conjunct1] .
  have g8: "recipients (dataHandler demoServer ?over) = []"
    using B [THEN conjunct2, THEN conjunct2, THEN conjunct1] .
  show ?thesis
    by (intro conjI g0 g1 g2 g3 g4 g5 g6 g7 g8)
qed

subsection \<open>Dot-unstuffing\<close>

text \<open>
  C4. The loop of the data phase takes a byte-line for the end of the data exactly when
  it is \<^verbatim>\<open>.\r\n\<close> or \<^verbatim>\<open>.\n\<close>; any other line goes to the buffer, without its first
  byte when that is a period and unchanged otherwise. So for a body of byte-lines that
  fits the size limit, reading its dot-stuffed form hands on the body itself: every
  \<^verbatim>\<open>Deliver\<close> call made for the message has the body as its content.
\<close>

theorem dot_unstuffing:
  "(\<forall>v l v1 msgBuf. readByteLine v = (Inr l, v1) \<longrightarrow>
      (l = ''.'' @ CRLF \<or> l = ''.'' @ [LF] \<longrightarrow> dataLoop srv msgBuf v = mailComplete srv msgBuf v1) \<and>
      (l \<noteq> ''.'' @ CRLF \<and> l \<noteq> ''.'' @ [LF] \<longrightarrow>
         dataLoop srv msgBuf v =
           (if int (length (msgBuf @ unstuff l)) > maxMessageBytes srv
            then reset (logWarn (send v1 ''552 Maximum message size exceeded''))
            else dataLoop srv (msgBuf @ unstuff l) v1))) \<and>
   (\<forall>l. unstuff (CHR ''.'' # l) = l) \<and>
   (\<forall>l. l = [] \<or> hd l \<noteq> CHR ''.'' \<longrightarrow> unstuff l = l) \<and>
   ((\<forall>l\<in>set body. byteLine l) \<and> int (length (concat body)) \<le> maxMessageBytes srv \<longrightarrow>
      dataHandler srv (w\<lparr>incoming := dotStuff body @ rest\<rparr>) =
        mailComplete srv (concat body)
          ((send w ''354 Start mail input; end with <CRLF>.<CRLF>'')\<lparr>incoming := rest\<rparr>) \<and>
      (\<exists>cs. delivered (dataHandler srv (w\<lparr>incoming := dotStuff body @ rest\<rparr>)) = delivered w @ cs \<and>
            (\<forall>c\<in>set cs. dc_content c = concat body)))"
proof (intro conjI allI impI)
  fix v l v1 msgBuf
  assume r: "readByteLine v = (Inr l, v1)"
  show "dataLoop srv msgBuf v = mailComplete srv msgBuf v1" if "l = ''.'' @ CRLF \<or> l = ''.'' @ [LF]"
    using r that by (rule dataLoop_terminator)
  show "dataLoop srv msgBuf v =
      (if int (length (msgBuf @ unstuff l)) > maxMessageBytes srv
       then reset (logWarn (send v1 ''552 Maximum message size exceeded''))
       else dataLoop srv (msgBuf @ unstuff l) v1)" if "l \<noteq> ''.'' @ CRLF \<and> l \<noteq> ''.'' @ [LF]"
    using dataLoop_line [OF r] that by simp
next
  fix l :: string
  show "unstuff (CHR ''.'' # l) = l"
    by (simp add: unstuff_def)
  show "unstuff l = l" if "l = [] \<or> hd l \<noteq> CHR ''.''"
    using that by (cases l) (auto simp: unstuff_def)
next
  assume h: "(\<forall>l\<in>set body. byteLine l) \<and> int (length (concat body)) \<le> maxMessageBytes srv"
  let ?s = "send w ''354 Start mail input; end with <CRLF>.<CRLF>''"
  have lines: "\<forall>l\<in>set (map stuffLine body). byteLine l \<and> l \<noteq> ''.'' @ CRLF \<and> l \<noteq> ''.'' @ [LF]"
  proof
    fix l
    assume "l \<in> set (map stuffLine body)"
    then obtain b where b: "b \<in> set body" "l = stuffLine b"
      by auto
    with h have bl: "byteLine b"
      by simp
    show "byteLine l \<and> l \<noteq> ''.'' @ CRLF \<and> l \<noteq> ''.'' @ [LF]"
      unfolding b(2) by (intro conjI stuffLine_facts(1-3) bl)
  qed
  have un: "concat (map unstuff (map stuffLine body)) = concat body"
    by (rule unstuff_stuffed) (use h in blast)
  show eq: "dataHandler srv (w\<lparr>incoming := dotStuff body @ rest\<rparr>) =
      mailComplete srv (concat body) (?s\<lparr>incoming := rest\<rparr>)"
    using dataHandler_lines [where ls = "map stuffLine body" and srv = srv and t = "''.'' @ CRLF"
        and w = w and rest = rest] lines h
    by (simp only: un dotStuff_def append_assoc) simp
  show "\<exists>cs. delivered (dataHandler srv (w\<lparr>incoming := dotStuff body @ rest\<rparr>)) = delivered w @ cs \<and>
      (\<forall>c\<in>set cs. dc_content c = concat body)"
    using mailComplete_content [of srv "concat body" "?s\<lparr>incoming := rest\<rparr>"] by (simp add: eq)
qed

theorem dot_unstuffing_witness:
  "dataLoop demoServer ''abc'' (demoData (''.'' @ [LF])) = mailComplete demoServer ''abc'' (demoData []) \<and>
   dataLoop demoServer ''abc'' (demoData (''..d'' @ CRLF)) =
     dataLoop demoServer (''abc'' @ ''.d'' @ CRLF) (demoData []) \<and>
   dotStuff [''.hidden'' @ CRLF, ''plain'' @ [LF]] = ''..hidden'' @ CRLF @ ''plain'' @ [LF] @ ''.'' @ CRLF \<and>
   dataHandler demoServer ((demoData [])\<lparr>incoming :=
       ''..hidden'' @ CRLF @ ''plain'' @ [LF] @ ''.'' @ CRLF @ ''QUIT'' @ CRLF\<rparr>) =
     mailComplete demoServer (''.hidden'' @ CRLF @ ''plain'' @ [LF])
       ((send (demoData []) ''354 Start mail input; end with <CRLF>.<CRLF>'')\<lparr>incoming := ''QUIT'' @ CRLF\<rparr>) \<and>
   map dc_content (delivered (dataHandler demoServer ((demoData [])\<lparr>incoming :=
       ''..hidden'' @ CRLF @ ''plain'' @ [LF] @ ''.'' @ CRLF @ ''QUIT'' @ CRLF\<rparr>))) =
     [''.hidden'' @ CRLF @ ''plain'' @ [LF]]"
proof -
  let ?body = "[''.hidden'' @ CRLF, ''plain'' @ [LF]]"
  let ?s = "(send (demoData []) ''354 Start mail input; end with <CRLF>.<CRLF>'')\<lparr>incoming := ''QUIT'' @ CRLF\<rparr>"
  have r1: "readByteLine (demoData (''.'' @ [LF])) = (Inr (''.'' @ [LF]), demoData [])"
    using readByteLine_line [OF byteLine_terminators(2), of "demoData (''.'' @ [LF])" "[]"]
    by (simp add: demo_defs)
  have r2: "readByteLine (demoData (''..d'' @ CRLF)) = (Inr (''..d'' @ CRLF), demoData [])"
    using readByteLine_line [of "''..d'' @ CRLF" "demoData (''..d'' @ CRLF)" "[]"]
    by (simp add: demo_defs line_defs)
  have a: "dataLoop demoServer ''abc'' (demoData (''.'' @ [LF])) = mailComplete demoServer ''abc'' (demoData [])"
    using dot_unstuffing [where srv = demoServer and body = ?body and w = "demoData []" and rest = "[]"] r1
    by blast
  have "dataLoop demoServer ''abc'' (demoData (''..d'' @ CRLF)) =
      (if int (length (''abc'' @ unstuff (''..d'' @ CRLF))) > maxMessageBytes demoServer
       then reset (logWarn (send (demoData []) ''552 Maximum message size exceeded''))
       else dataLoop demoServer (''abc'' @ unstuff (''..d'' @ CRLF)) (demoData []))"
    using dot_unstuffing [where srv = demoServer and body = ?body and w = "demoData []" and rest = "[]",
        THEN conjunct1, rule_format, OF r2, THEN conjunct2]
    by (simp add: CRLF_def)
  then have b: "dataLoop demoServer ''abc'' (demoData (''..d'' @ CRLF)) =
      dataLoop demoServer (''abc'' @ ''.d'' @ CRLF) (demoData [])"
    by (simp add: line_defs demoServer_simps)
  have h: "(\<forall>l\<in>set ?body. byteLine l) \<and> int (length (concat ?body)) \<le> maxMessageBytes demoServer"
    by (simp add: line_defs demoServer_simps)
  have d: "dotStuff ?body = ''..hidden'' @ CRLF @ ''plain'' @ [LF] @ ''.'' @ CRLF"
    by (simp add: dotStuff_def line_defs)
  have e: "dataHandler demoServer ((demoData [])\<lparr>incoming := dotStuff ?body @ ''QUIT'' @ CRLF\<rparr>) =
      mailComplete demoServer (concat ?body) ?s"
    using dot_unstuffing [where srv = demoServer and body = ?body and w = "demoData []"
        and rest = "''QUIT'' @ CRLF"] h by blast
  have ok: "deliveriesOk demoServer (delivered ?s) (dueCalls demoServer ?s (concat ?body) (recipients ?s))"
    by (simp add: dueCalls_def deliverCall_def demo_defs demoServer_simps)
  have c: "map dc_content (delivered (mailComplete demoServer (concat ?body) ?s)) = [concat ?body]"
    unfolding mailComplete_ok [OF ok]
    by (simp add: dueCalls_def deliverCall_def demo_defs)
  show ?thesis
    using a b d e c by (simp add: line_defs)
qed

subsection \<open>The SIZE parameter of MAIL\<close>



subsection \<open>The recipient limit\<close>

text \<open>
  C6. In the \<open>MAIL\<close> state, a syntactically valid \<^verbatim>\<open>RCPT\<close> command is accepted as long
  as fewer than \<open>maxRecips\<close> recipients are held, so the \<open>maxRecips\<close>-th is accepted: the
  recipient is appended and a connection that takes the write has received
  \<^verbatim>\<open>250 I'll make sure <addr> gets this\<close>. Once \<open>maxRecips\<close> recipients are held the
  connection has received \<^verbatim>\<open>552 Maximum limit of <maxRecips> recipients reached\<close>, the
  recipient list is unchanged and the state stays \<open>MAIL\<close>.
\<close>

theorem rcpt_limit:
  assumes "state w = MAIL"
    and "readLine w = (Inr line, w1)"
    and "fst (parseCmd srv w1 line) = (''RCPT'', arg, True)"
    and "4 \<le> length arg" and "ToUpper (unicodeUpper srv) (take 3 arg) = ''TO:''"
    and "NewRecipient srv (Trim (drop 3 arg) ''<> '') = Some recip"
  shows "(int (length (recipients w)) < maxRecips srv \<longrightarrow>
            iteration srv w =
              (Continue, send (w1\<lparr>recipients := recipients w @ [recip]\<rparr>)
                 (''250 I'll make sure <'' @ Trim (drop 3 arg) ''<> '' @ ''> gets this'')) \<and>
            recipients (snd (iteration srv w)) = recipients w @ [recip] \<and>
            state (snd (iteration srv w)) = MAIL \<and>
            (writesOk 1 w \<longrightarrow>
               outgoing (snd (iteration srv w)) =
                 outgoing w @ [''250 I'll make sure <'' @ Trim (drop 3 arg) ''<> '' @ ''> gets this'' @ CRLF])) \<and>
         (maxRecips srv \<le> int (length (recipients w)) \<longrightarrow>
            iteration srv w =
              (Continue, send (logWarn w1)
                 (''552 Maximum limit of '' @ itoa (maxRecips srv) @ '' recipients reached'')) \<and>
            recipients (snd (iteration srv w)) = recipients w \<and>
            state (snd (iteration srv w)) = MAIL \<and>
            (writesOk 1 w \<longrightarrow>
               outgoing (snd (iteration srv w)) =
                 outgoing w @ [''552 Maximum limit of '' @ itoa (maxRecips srv) @ '' recipients reached'' @ CRLF]))"
proof -
  let ?ok = "''250 I'll make sure <'' @ Trim (drop 3 arg) ''<> '' @ ''> gets this''"
  let ?no = "''552 Maximum limit of '' @ itoa (maxRecips srv) @ '' recipients reached''"
  have it: "iteration srv w = (Continue, mailHandler srv w1 ''RCPT'' arg)"
    using iteration_dispatch [OF _ assms(2,3)] assms(1) by simp
  have mh: "mailHandler srv w1 ''RCPT'' arg =
      (if maxRecips srv \<le> int (length (recipients w)) then send (logWarn w1) ?no
       else send (w1\<lparr>recipients := recipients w @ [recip]\<rparr>) ?ok)"
    using readLine_fields [OF assms(2)] assms(4,5,6) by (simp add: mailHandler_def Let_def)
  have out250: "outgoing (send (w1\<lparr>recipients := recipients w @ [recip]\<rparr>) ?ok) = outgoing w @ [?ok @ CRLF]"
    if "writesOk 1 w"
  proof -
    from that have "writesOk (Suc 0) (w1\<lparr>recipients := recipients w @ [recip]\<rparr>)"
      by (simp add: readLine_wire [OF assms(2)])
    from send_ok(1) [OF this] show ?thesis
      by (simp add: readLine_wire [OF assms(2)])
  qed
  have out552: "outgoing (send (logWarn w1) ?no) = outgoing w @ [?no @ CRLF]" if "writesOk 1 w"
  proof -
    from that have "writesOk (Suc 0) (logWarn w1)"
      by (simp add: readLine_wire [OF assms(2)])
    from send_ok(1) [OF this] show ?thesis
      by (simp add: readLine_wire [OF assms(2)])
  qed
  show ?thesis
    using it mh readLine_fields [OF assms(2)] assms(1) out250 out552
    by simp
qed

theorem rcpt_limit_witness:
  "iteration demoServer ((demoMail (''rcpt to:<c@ex>'' @ CRLF))\<lparr>recipients := [demoRecipient, demoUnstored]\<rparr>) =
     (Continue, send ((demoMail [])\<lparr>recipients := [demoRecipient, demoUnstored,
         \<lparr>Address = ''c@ex'', LocalPart = ''c'', ShouldStore = True\<rparr>]\<rparr>)
       ''250 I'll make sure <c@ex> gets this'') \<and>
   outgoing (snd (iteration demoServer
       ((demoMail (''rcpt to:<c@ex>'' @ CRLF))\<lparr>recipients := [demoRecipient, demoUnstored]\<rparr>))) =
     [''250 I'll make sure <c@ex> gets this'' @ CRLF] \<and>
   iteration demoServer ((demoMail (''rcpt to:<c@ex>'' @ CRLF))\<lparr>recipients :=
       [demoRecipient, demoUnstored, demoRecipient]\<rparr>) =
     (Continue, send (logWarn ((demoMail [])\<lparr>recipients := [demoRecipient, demoUnstored, demoRecipient]\<rparr>))
       ''552 Maximum limit of 3 recipients reached'') \<and>
   outgoing (snd (iteration demoServer ((demoMail (''rcpt to:<c@ex>'' @ CRLF))\<lparr>recipients :=
       [demoRecipient, demoUnstored, demoRecipient]\<rparr>))) =
     [''552 Maximum limit of 3 recipients reached'' @ CRLF] \<and>
   recipients (snd (iteration demoServer ((demoMail (''rcpt to:<c@ex>'' @ CRLF))\<lparr>recipients :=
       [demoRecipient, demoUnstored, demoRecipient]\<rparr>))) =
     [demoRecipient, demoUnstored, demoRecipient]"
proof -
  let ?l = "''rcpt to:<c@ex>''"
  let ?w = "(demoMail (?l @ CRLF))\<lparr>recipients := [demoRecipient, demoUnstored]\<rparr>"
  let ?v = "(demoMail (?l @ CRLF))\<lparr>recipients := [demoRecipient, demoUnstored, demoRecipient]\<rparr>"
  have r: "readLine ?w = (Inr (?l @ CRLF), (demoMail [])\<lparr>recipients := [demoRecipient, demoUnstored]\<rparr>)"
    using readLine_line [of ?l ?w "[]"] by (simp add: LF_def demoMail_def demoWorld_def)
  have r': "readLine ?v =
      (Inr (?l @ CRLF), (demoMail [])\<lparr>recipients := [demoRecipient, demoUnstored, demoRecipient]\<rparr>)"
    using readLine_line [of ?l ?v "[]"] by (simp add: LF_def demoMail_def demoWorld_def)
  have p: "fst (parseCmd demoServer w' (?l @ CRLF)) = (''RCPT'', ''to:<c@ex>'', True)" for w'
    by (simp add: parseCmd_def Let_def str_defs)
  have s: "state ?w = MAIL" "state ?v = MAIL"
    by (simp_all add: demoMail_def)
  have a: "4 \<le> length ''to:<c@ex>''" "ToUpper (unicodeUpper demoServer) (take 3 ''to:<c@ex>'') = ''TO:''"
    by (simp_all add: str_defs)
  have n: "NewRecipient demoServer (Trim (drop 3 ''to:<c@ex>'') ''<> '') =
      Some \<lparr>Address = ''c@ex'', LocalPart = ''c'', ShouldStore = True\<rparr>"
    by (simp add: demoServer_def str_defs)
  have ok: "writesOk 1 ?w" "writesOk 1 ?v"
    by (simp_all add: writesOk_def demoMail_def demoWorld_def)
  have lim: "maxRecips demoServer = 3"
    by (simp add: demoServer_def)
  have o: "outgoing (demoMail x) = []" for x
    by (simp add: demoMail_def demoWorld_def)
  have lt: "int (length (recipients ?w)) < maxRecips demoServer"
    and ge: "maxRecips demoServer \<le> int (length (recipients ?v))"
    by (simp_all add: lim)
  note A = rcpt_limit [OF s(1) r p a n, THEN conjunct1, rule_format, OF lt]
  note B = rcpt_limit [OF s(2) r' p a n, THEN conjunct2, rule_format, OF ge]
  have g1: "iteration demoServer ?w =
      (Continue, send ((demoMail [])\<lparr>recipients := [demoRecipient, demoUnstored,
          \<lparr>Address = ''c@ex'', LocalPart = ''c'', ShouldStore = True\<rparr>]\<rparr>)
        ''250 I'll make sure <c@ex> gets this'')"
    using A [THEN conjunct1] by (simp add: TrimRight_def TrimLeft_def Trim_def)
  have g2: "outgoing (snd (iteration demoServer ?w)) = [''250 I'll make sure <c@ex> gets this'' @ CRLF]"
    using A [THEN conjunct2, THEN conjunct2, THEN conjunct2, rule_format, OF ok(1)]
    by (simp add: o TrimRight_def TrimLeft_def Trim_def)
  have g3: "iteration demoServer ?v =
      (Continue, send (logWarn ((demoMail [])\<lparr>recipients := [demoRecipient, demoUnstored, demoRecipient]\<rparr>))
        ''552 Maximum limit of 3 recipients reached'')"
    using B [THEN conjunct1] by (simp add: lim itoa_def natDigits.simps digitChars_def)
  have g4: "outgoing (snd (iteration demoServer ?v)) = [''552 Maximum limit of 3 recipients reached'' @ CRLF]"
    using B [THEN conjunct2, THEN conjunct2, THEN conjunct2, rule_format, OF ok(2)]
    by (simp add: o lim itoa_def natDigits.simps digitChars_def)
  have g5: "recipients (snd (iteration demoServer ?v)) = [demoRecipient, demoUnstored, demoRecipient]"
    using B [THEN conjunct2, THEN conjunct1] by simp
  show ?thesis
    by (intro conjI g1 g2 g3 g4 g5)
qed

subsection \<open>The frame of reset\<close>

text \<open>
  C7. For every session, \<^verbatim>\<open>reset\<close> sets the state to \<open>READY\<close>, clears the sender and
  empties the recipient list; every other field, \<open>remoteDomain\<close> among them, keeps its
  value.
\<close>

theorem reset_frame:
  "state (reset w) = READY \<and> from_addr (reset w) = [] \<and> recipients (reset w) = [] \<and>
   remoteDomain (reset w) = remoteDomain w \<and> sid (reset w) = sid w \<and>
   remoteHost (reset w) = remoteHost w \<and> sendError (reset w) = sendError w \<and>
   incoming (reset w) = incoming w \<and> incomingEnd (reset w) = incomingEnd w \<and>
   writeResults (reset w) = writeResults w \<and> outgoing (reset w) = outgoing w \<and>
   expReceivedTotal (reset w) = expReceivedTotal w \<and> expWarnsTotal (reset w) = expWarnsTotal w \<and>
   expErrorsTotal (reset w) = expErrorsTotal w \<and> clock (reset w) = clock w \<and>
   ticks (reset w) = ticks w \<and> delivered (reset w) = delivered w"
  by (simp add: reset_def enterState_def)

subsection \<open>Deliveries after the terminator\<close>

text \<open>
  C8. Once the terminator is read, \<^verbatim>\<open>Deliver\<close> is called for the recipients whose
  \<^verbatim>\<open>ShouldStore()\<close> is true, one after the other in the order of the recipient list
  (the order in which the \<^verbatim>\<open>RCPT\<close> commands were accepted). When all these calls
  succeed, the log of calls grows by exactly them and the reply is
  \<^verbatim>\<open>250 Mail accepted for delivery\<close>. When the call for a recipient \<open>r\<close> is the first to
  fail, the reply is \<^verbatim>\<open>451 Failed to store message for <LocalPart r>\<close>, the session is
  reset to \<open>READY\<close>, and the log holds the calls for the stored recipients before \<open>r\<close>
  and the call for \<open>r\<close>: none for a later recipient, and the earlier ones stay.
\<close>

theorem deliveries_in_order:
  assumes "readByteLine w0 = (Inr l, w)" and "l = ''.'' @ CRLF \<or> l = ''.'' @ [LF]"
  shows "(deliveriesOk srv (delivered w) (dueCalls srv w msgBuf (recipients w)) \<longrightarrow>
            dataLoop srv msgBuf w0 =
              reset (send (w\<lparr>ticks := ticks w + 1,
                            delivered := delivered w @ dueCalls srv w msgBuf (recipients w),
                            expReceivedTotal := expReceivedTotal w + int (length (recipients w))\<rparr>)
                      ''250 Mail accepted for delivery'') \<and>
            delivered (dataLoop srv msgBuf w0) =
              delivered w0 @ dueCalls srv w msgBuf (recipients w0) \<and>
            state (dataLoop srv msgBuf w0) = READY) \<and>
         (\<forall>rpre r rpost e.
            recipients w = rpre @ r # rpost \<and> ShouldStore r \<and>
            deliveriesOk srv (delivered w) (dueCalls srv w msgBuf rpre) \<and>
            Deliver srv (delivered w @ dueCalls srv w msgBuf rpre)
              (deliverCall srv w (clock w (ticks w)) msgBuf r) = Inl e \<longrightarrow>
            dataLoop srv msgBuf w0 =
              reset (send (logError
                 (w\<lparr>ticks := ticks w + 1,
                    delivered := delivered w @ dueCalls srv w msgBuf rpre @
                                 [deliverCall srv w (clock w (ticks w)) msgBuf r],
                    expReceivedTotal := expReceivedTotal w + int (length rpre)\<rparr>))
                 (''451 Failed to store message for '' @ LocalPart r)) \<and>
            delivered (dataLoop srv msgBuf w0) =
              delivered w0 @ dueCalls srv w msgBuf rpre @ [deliverCall srv w (clock w (ticks w)) msgBuf r] \<and>
            state (dataLoop srv msgBuf w0) = READY)"
proof -
  have dl: "dataLoop srv msgBuf w0 = mailComplete srv msgBuf w"
    using assms by (rule dataLoop_terminator)
  note f = readByteLine_fields [OF assms(1)]
  show ?thesis
  proof (intro conjI impI allI)
    assume ok: "deliveriesOk srv (delivered w) (dueCalls srv w msgBuf (recipients w))"
    show a: "dataLoop srv msgBuf w0 =
        reset (send (w\<lparr>ticks := ticks w + 1,
                      delivered := delivered w @ dueCalls srv w msgBuf (recipients w),
                      expReceivedTotal := expReceivedTotal w + int (length (recipients w))\<rparr>)
                ''250 Mail accepted for delivery'')"
      using mailComplete_ok [OF ok] by (simp add: dl)
    show "delivered (dataLoop srv msgBuf w0) = delivered w0 @ dueCalls srv w msgBuf (recipients w0)"
      by (simp add: a f)
    show "state (dataLoop srv msgBuf w0) = READY"
      by (simp add: a)
  next
    fix rpre r rpost e
    assume h: "recipients w = rpre @ r # rpost \<and> ShouldStore r \<and>
        deliveriesOk srv (delivered w) (dueCalls srv w msgBuf rpre) \<and>
        Deliver srv (delivered w @ dueCalls srv w msgBuf rpre)
          (deliverCall srv w (clock w (ticks w)) msgBuf r) = Inl e"
    show b: "dataLoop srv msgBuf w0 =
        reset (send (logError
           (w\<lparr>ticks := ticks w + 1,
              delivered := delivered w @ dueCalls srv w msgBuf rpre @
                           [deliverCall srv w (clock w (ticks w)) msgBuf r],
              expReceivedTotal := expReceivedTotal w + int (length rpre)\<rparr>))
           (''451 Failed to store message for '' @ LocalPart r))"
      using mailComplete_fail [of w rpre r rpost srv msgBuf e] h by (simp add: dl)
    show "delivered (dataLoop srv msgBuf w0) =
        delivered w0 @ dueCalls srv w msgBuf rpre @ [deliverCall srv w (clock w (ticks w)) msgBuf r]"
      by (simp add: b f)
    show "state (dataLoop srv msgBuf w0) = READY"
      by (simp add: b)
  qed
qed

theorem deliveries_in_order_witness:
  "map dc_to (delivered (dataLoop demoServer ''body'' (demoThree (''.'' @ CRLF)))) = [demoRecipient, demoRecipient] \<and>
   outgoing (dataLoop demoServer ''body'' (demoThree (''.'' @ CRLF))) =
     outgoing (demoThree []) @ [''250 Mail accepted for delivery'' @ CRLF] \<and>
   map dc_to (delivered (dataLoop demoServer ''body'' (demoRefused (''.'' @ CRLF)))) = [demoRecipient, demoFull] \<and>
   outgoing (dataLoop demoServer ''body'' (demoRefused (''.'' @ CRLF))) =
     outgoing (demoRefused []) @ [''451 Failed to store message for full'' @ CRLF] \<and>
   state (dataLoop demoServer ''body'' (demoRefused (''.'' @ CRLF))) = READY"
proof -
  have ok: "deliveriesOk demoServer (delivered (demoThree [])) (dueCalls demoServer (demoThree []) ''body'' (recipients (demoThree [])))"
    by (simp add: dueCalls_def deliverCall_def demoThree_def demo_defs demoServer_simps)
  have t: "''.'' @ CRLF = ''.'' @ CRLF \<or> ''.'' @ CRLF = ''.'' @ [LF]"
    by simp
  have bad: "recipients (demoRefused []) = [demoRecipient] @ demoFull # [demoRecipient] \<and>
      ShouldStore demoFull \<and>
      deliveriesOk demoServer (delivered (demoRefused [])) (dueCalls demoServer (demoRefused []) ''body'' [demoRecipient]) \<and>
      Deliver demoServer (delivered (demoRefused []) @ dueCalls demoServer (demoRefused []) ''body'' [demoRecipient])
        (deliverCall demoServer (demoRefused []) (clock (demoRefused []) (ticks (demoRefused []))) ''body'' demoFull) = Inl DeliverError"
    by (simp add: dueCalls_def deliverCall_def demoRefused_def demo_defs demoServer_simps)
  from deliveries_in_order [OF readByteLine_demoThree t, of demoServer "''body''"] ok
  have a: "dataLoop demoServer ''body'' (demoThree (''.'' @ CRLF)) =
      reset (send ((demoThree [])\<lparr>ticks := ticks (demoThree []) + 1,
          delivered := delivered (demoThree []) @ dueCalls demoServer (demoThree []) ''body'' (recipients (demoThree [])),
          expReceivedTotal := expReceivedTotal (demoThree []) + int (length (recipients (demoThree [])))\<rparr>)
        ''250 Mail accepted for delivery'')"
    by blast
  from deliveries_in_order [OF readByteLine_demoRefused t, of demoServer "''body''"] bad
  have b: "dataLoop demoServer ''body'' (demoRefused (''.'' @ CRLF)) =
      reset (send (logError
         ((demoRefused [])\<lparr>ticks := ticks (demoRefused []) + 1,
            delivered := delivered (demoRefused []) @ dueCalls demoServer (demoRefused []) ''body'' [demoRecipient] @
                         [deliverCall demoServer (demoRefused []) (clock (demoRefused []) (ticks (demoRefused []))) ''body'' demoFull],
            expReceivedTotal := expReceivedTotal (demoRefused []) + int (length [demoRecipient])\<rparr>))
         (''451 Failed to store message for '' @ LocalPart demoFull))"
    by blast
  show ?thesis
    unfolding a b
    by (simp add: dueCalls_def deliverCall_def demoThree_def demoRefused_def demo_defs send_def logError_def)
qed

subsection \<open>The received-total counter\<close>

text \<open>
  C9 as stated, once per stored recipient and not for the others, fails: a message whose
  only recipient is not stored is accepted with 250 and no \<^verbatim>\<open>Deliver\<close> call, and the
  counter has grown by one. \<^verbatim>\<open>expReceivedTotal.Add(1)\<close> stands after the
  \<^verbatim>\<open>if recip.ShouldStore()\<close> block, not inside it.
\<close>

theorem received_total_counterexample:
  "filter ShouldStore (recipients demoUnstoredMail) = [] \<and>
   delivered (dataHandler demoServer demoUnstoredMail) = [] \<and>
   outgoing (dataHandler demoServer demoUnstoredMail) =
     outgoing demoUnstoredMail @
     [''354 Start mail input; end with <CRLF>.<CRLF>'' @ CRLF, ''250 Mail accepted for delivery'' @ CRLF] \<and>
   expReceivedTotal (dataHandler demoServer demoUnstoredMail) = expReceivedTotal demoUnstoredMail + 1 \<and>
   expReceivedTotal (dataHandler demoServer demoUnstoredMail) \<noteq>
     expReceivedTotal demoUnstoredMail + int (length (filter ShouldStore (recipients demoUnstoredMail)))"
proof -
  let ?w = "(demoData [])\<lparr>recipients := [demoUnstored]\<rparr>"
  let ?s = "(send ?w ''354 Start mail input; end with <CRLF>.<CRLF>'')\<lparr>incoming := []\<rparr>"
  have w: "demoUnstoredMail = ?w\<lparr>incoming := concat [''hi'' @ CRLF] @ (''.'' @ CRLF) @ []\<rparr>"
    by (simp add: demoUnstoredMail_def demo_defs)
  have "dataHandler demoServer demoUnstoredMail = mailComplete demoServer (concat (map unstuff [''hi'' @ CRLF])) ?s"
    unfolding w
    by (rule dataHandler_lines) (simp_all add: byteLine_def CRLF_def CR_def LF_def unstuff_def demoServer_simps)
  moreover have "deliveriesOk demoServer (delivered ?s) (dueCalls demoServer ?s msgBuf (recipients ?s))" for msgBuf
    by (simp add: dueCalls_def demo_defs)
  ultimately have "dataHandler demoServer demoUnstoredMail =
      reset (send (?s\<lparr>ticks := ticks ?s + 1,
                      delivered := delivered ?s @ dueCalls demoServer ?s (concat (map unstuff [''hi'' @ CRLF])) (recipients ?s),
                      expReceivedTotal := expReceivedTotal ?s + int (length (recipients ?s))\<rparr>)
               ''250 Mail accepted for delivery'')"
    by (simp only: mailComplete_ok)
  then show ?thesis
    by (simp add: demoUnstoredMail_def demo_defs dueCalls_def send_def)
qed

text \<open>
  C9, amended. When the data phase completes with every delivery successful, the
  received-total counter has grown by the number of recipients of the message, stored
  or not.
\<close>

theorem received_total_counts_recipients:
  assumes "readByteLine w0 = (Inr l, w)" and "l = ''.'' @ CRLF \<or> l = ''.'' @ [LF]"
    and "deliveriesOk srv (delivered w) (dueCalls srv w msgBuf (recipients w))"
  shows "expReceivedTotal (dataLoop srv msgBuf w0) =
           expReceivedTotal w0 + int (length (recipients w0))"
proof -
  have "dataLoop srv msgBuf w0 = mailComplete srv msgBuf w"
    using assms(1,2) by (rule dataLoop_terminator)
  then show ?thesis
    using mailComplete_ok [OF assms(3)] readByteLine_fields [OF assms(1)] by simp
qed

theorem received_total_counts_recipients_witness:
  "deliveriesOk demoServer (delivered (demoThree [])) (dueCalls demoServer (demoThree []) ''body'' (recipients (demoThree []))) \<and>
   expReceivedTotal (dataLoop demoServer ''body'' (demoThree (''.'' @ CRLF))) = 3"
proof -
  have ok: "deliveriesOk demoServer (delivered (demoThree [])) (dueCalls demoServer (demoThree []) ''body'' (recipients (demoThree [])))"
    by (simp add: dueCalls_def deliverCall_def demoThree_def demo_defs demoServer_simps)
  show ?thesis
    using received_total_counts_recipients [OF readByteLine_demoThree _ ok] ok
    by (simp add: demoThree_def demo_defs)
qed

subsection \<open>DATA with an argument\<close>

text \<open>
  C10. In the \<open>MAIL\<close> state with at least one recipient, a line that parses to the
  verb \<^verbatim>\<open>DATA\<close> with a non-empty argument is answered with
  \<^verbatim>\<open>501 DATA command should not have any arguments\<close>; the state stays \<open>MAIL\<close>, and the
  sender and the recipient list are unchanged.
\<close>

theorem data_with_argument_rejected:
  assumes "state w = MAIL" and "recipients w \<noteq> []"
    and "readLine w = (Inr line, w1)"
    and "fst (parseCmd srv w1 line) = (''DATA'', arg, True)"
    and "arg \<noteq> []"
  shows "iteration srv w =
           (Continue, logWarn (send w1 ''501 DATA command should not have any arguments'')) \<and>
         state (snd (iteration srv w)) = MAIL \<and>
         from_addr (snd (iteration srv w)) = from_addr w \<and>
         recipients (snd (iteration srv w)) = recipients w"
proof -
  have "iteration srv w = (Continue, mailHandler srv w1 ''DATA'' arg)"
    using iteration_dispatch [OF _ assms(3,4)] assms(1) by simp
  moreover have "mailHandler srv w1 ''DATA'' arg =
      logWarn (send w1 ''501 DATA command should not have any arguments'')"
    using assms(5) by (simp add: mailHandler_def)
  ultimately show ?thesis
    using readLine_fields [OF assms(3)] assms(1) by simp
qed

theorem data_with_argument_rejected_witness:
  "state (demoMail (''data now'' @ CRLF)) = MAIL \<and>
   recipients (demoMail (''data now'' @ CRLF)) \<noteq> [] \<and>
   outgoing (snd (iteration demoServer (demoMail (''data now'' @ CRLF)))) =
     [''501 DATA command should not have any arguments'' @ CRLF] \<and>
   state (snd (iteration demoServer (demoMail (''data now'' @ CRLF)))) = MAIL \<and>
   recipients (snd (iteration demoServer (demoMail (''data now'' @ CRLF)))) = [demoRecipient]"
proof -
  have r: "readLine (demoMail (''data now'' @ CRLF)) = (Inr (''data now'' @ CRLF), demoMail [])"
    using readLine_line [of "''data now''" "demoMail (''data now'' @ CRLF)" "[]"]
    by (simp add: LF_def demoMail_def demoWorld_def)
  have p: "fst (parseCmd demoServer (demoMail []) (''data now'' @ CRLF)) = (''DATA'', ''now'', True)"
    by (simp add: parseCmd_def Let_def str_defs)
  have s: "state (demoMail (''data now'' @ CRLF)) = MAIL"
    "recipients (demoMail (''data now'' @ CRLF)) \<noteq> []"
    by (simp_all add: demoMail_def)
  show ?thesis
    using data_with_argument_rejected [OF s r p] s
    by (simp add: demoMail_def demoWorld_def send_def logWarn_def)
qed

end
